theory Spec2Isabelle
  imports Main "HOL-Library.Sublist" "HOL-Library.Char_ord" "HOL-Library.List_Lexorder"
    "HOL-Library.Multiset"
begin

section \<open>Data model (schema.prisma)\<close>

text \<open>
  The enums of the schema. Identifiers are the schema's \<open>String\<close> ids (cuid); timestamps
  (\<open>DateTime\<close>) are abstract natural numbers, only compared with each other.
\<close>

datatype EventSource =
  SRC_SECRET | SRC_VARIABLE | SRC_API_KEY | SRC_ENVIRONMENT | SRC_PROJECT | SRC_WORKSPACE
  | SRC_WORKSPACE_ROLE | SRC_USER

datatype EventTriggerer = TRIGGERER_USER | TRIGGERER_SYSTEM

datatype EventSeverity = INFO | WARN | ERROR

datatype EventType =
  INVITED_TO_WORKSPACE | REMOVED_FROM_WORKSPACE | ACCEPTED_INVITATION | DECLINED_INVITATION
  | CANCELLED_INVITATION | LEFT_WORKSPACE | WORKSPACE_MEMBERSHIP_UPDATED | WORKSPACE_UPDATED
  | WORKSPACE_DELETED | WORKSPACE_CREATED | WORKSPACE_ROLE_CREATED | WORKSPACE_ROLE_UPDATED
  | WORKSPACE_ROLE_DELETED | PROJECT_CREATED | PROJECT_UPDATED | PROJECT_DELETED
  | SECRET_UPDATED | SECRET_DELETED | SECRET_ADDED | VARIABLE_UPDATED | VARIABLE_DELETED
  | VARIABLE_ADDED | API_KEY_UPDATED | API_KEY_DELETED | API_KEY_ADDED
  | ENVIRONMENT_UPDATED | ENVIRONMENT_DELETED | ENVIRONMENT_ADDED | USER_UPDATED

datatype Authority =
  CREATE_PROJECT | READ_USERS | ADD_USER | REMOVE_USER | UPDATE_USER_ROLE | READ_WORKSPACE
  | UPDATE_WORKSPACE | DELETE_WORKSPACE | CREATE_WORKSPACE_ROLE | READ_WORKSPACE_ROLE
  | UPDATE_WORKSPACE_ROLE | DELETE_WORKSPACE_ROLE | WORKSPACE_ADMIN
  | READ_PROJECT | UPDATE_PROJECT | DELETE_PROJECT | CREATE_SECRET | READ_SECRET
  | UPDATE_SECRET | DELETE_SECRET | CREATE_ENVIRONMENT | READ_ENVIRONMENT
  | UPDATE_ENVIRONMENT | DELETE_ENVIRONMENT | CREATE_VARIABLE | READ_VARIABLE
  | UPDATE_VARIABLE | DELETE_VARIABLE
  | CREATE_WORKSPACE | CREATE_API_KEY | READ_API_KEY | UPDATE_API_KEY | DELETE_API_KEY
  | UPDATE_PROFILE | READ_SELF | UPDATE_SELF | READ_EVENT

text \<open>
  The rows of the tables the environment service reads or writes. Of each model the
  fields the service touches are kept; relations are kept as their foreign keys.
\<close>

record User =
  user_id :: string
  email :: string

record Project =
  project_id :: string
  project_name :: string
  workspaceId :: string

record Environment =
  env_id :: string
  name :: string
  description :: "string option"
  createdAt :: nat
  updatedAt :: nat
  isDefault :: bool
  lastUpdatedById :: "string option"
  projectId :: string

record WorkspaceRole =
  hasAdminAuthority :: bool
  authorities :: "Authority list"

text \<open>A membership with the roles its \<open>WorkspaceMemberRoleAssociation\<close> rows join to it.\<close>

record WorkspaceMember =
  member_userId :: string
  member_workspaceId :: string
  roles :: "WorkspaceRole list"

text \<open>The \<open>metadata\<close> column is a JSON object; the service only stores string values in it.\<close>

record Event =
  source :: EventSource
  triggerer :: EventTriggerer
  severity :: EventSeverity
  event_type :: EventType
  title :: string
  metadata :: "(string \<times> string) list"
  sourceUserId :: "string option"
  sourceEnvironmentId :: "string option"

text \<open>The store: every table is the list of its rows, in insertion order.\<close>

record db =
  users :: "User list"
  projects :: "Project list"
  members :: "WorkspaceMember list"
  environments :: "Environment list"
  events :: "Event list"

text \<open>
  The failures of the service (spec, section 7): \<open>ConflictException\<close> is \<open>Conflict\<close>,
  \<open>BadRequestException\<close> is \<open>InvalidOperation\<close>; \<open>NotFound\<close> and \<open>Forbidden\<close> come from the
  authority resolver; \<open>InternalFailure\<close> is an error raised by the store itself (a
  violated constraint, a rejected query argument).
\<close>

datatype error = NotFound | Forbidden | Conflict | InvalidOperation | InternalFailure

text \<open>The payloads. \<open>None\<close> is an absent (\<open>undefined\<close>) property.\<close>

record CreateEnvironment =
  c_name :: string
  c_description :: "string option"
  c_isDefault :: "bool option"

record UpdateEnvironment =
  u_name :: "string option"
  u_description :: "string option"
  u_isDefault :: "bool option"

text \<open>
  What the store generates while it executes a write: the \<open>cuid()\<close> of a created row and
  the clock reading for \<open>@default(now())\<close> and \<open>@updatedAt\<close>.
\<close>

record generated =
  cuid :: string
  now :: nat

section \<open>Authority resolver\<close>

text \<open>
  The service imports \<open>common/get-project-with-authority\<close> and
  \<open>common/get-environment-with-authority\<close>; their code is not part of the sources at
  hand. The definitions of this section follow section 4.1 of the specification. The
  resolver only reads.
\<close>

text \<open>
  Modelled from the spec: the missing resolver's test of one role. A role grants the
  authorities it lists; a role flagged \<open>hasAdminAuthority\<close> grants every authority.
\<close>

definition role_grants :: "Authority \<Rightarrow> WorkspaceRole \<Rightarrow> bool" where
  "role_grants a r = (hasAdminAuthority r \<or> List.member (authorities r) a)"

text \<open>
  Modelled from the spec: the missing resolver's collection of the roles assigned to the
  caller's membership in the workspace.
\<close>

definition effectiveRoles :: "string \<Rightarrow> string \<Rightarrow> db \<Rightarrow> WorkspaceRole list" where
  "effectiveRoles userId wsId d =
     concat (map roles (filter (\<lambda>m. member_userId m = userId \<and> member_workspaceId m = wsId)
                               (members d)))"

text \<open>
  Modelled from the spec: the missing resolver's effective authority set is the union
  over these roles; the required authority is in it when one of the roles grants it.
\<close>

definition hasAuthority :: "string \<Rightarrow> string \<Rightarrow> Authority \<Rightarrow> db \<Rightarrow> bool" where
  "hasAuthority userId wsId a d = list_ex (role_grants a) (effectiveRoles userId wsId d)"

text \<open>
  Modelled from the spec: the missing \<open>getProjectWithAuthority\<close>. It fails with \<open>NotFound\<close>
  when the project does not exist and with \<open>Forbidden\<close> when the required authority is
  not in the caller's effective set; otherwise it returns the project.
\<close>

definition getProjectWithAuthority ::
  "string \<Rightarrow> string \<Rightarrow> Authority \<Rightarrow> db \<Rightarrow> error + Project" where
  "getProjectWithAuthority userId projId authority d =
     (case find (\<lambda>p. project_id p = projId) (projects d) of
        None \<Rightarrow> Inl NotFound
      | Some project \<Rightarrow>
          if hasAuthority userId (workspaceId project) authority d then Inr project
          else Inl Forbidden)"

text \<open>
  Modelled from the spec: the missing \<open>getEnvironmentWithAuthority\<close>. It fails with
  \<open>NotFound\<close> when the environment does not exist and with \<open>Forbidden\<close> when the required
  authority is not in the caller's effective set for the workspace of the environment's
  project; otherwise it returns the stored environment.
\<close>

definition getEnvironmentWithAuthority ::
  "string \<Rightarrow> string \<Rightarrow> Authority \<Rightarrow> db \<Rightarrow> error + Environment" where
  "getEnvironmentWithAuthority userId environmentId authority d =
     (case find (\<lambda>e. env_id e = environmentId) (environments d) of
        None \<Rightarrow> Inl NotFound
      | Some environment \<Rightarrow>
          (case find (\<lambda>p. project_id p = projectId environment) (projects d) of
             None \<Rightarrow> Inl NotFound
           | Some project \<Rightarrow>
               if hasAuthority userId (workspaceId project) authority d then Inr environment
               else Inl Forbidden))"

section \<open>Event emitter\<close>

record EventData =
  triggeredBy :: User
  entity :: "Environment option"
  ev_type :: EventType
  ev_source :: EventSource
  ev_title :: string
  ev_metadata :: "(string \<times> string) list"

text \<open>
  Modelled from the spec: the missing \<open>createEvent\<close> (\<open>common/create-event\<close> is imported by
  the service, its code is not part of the sources at hand). Section 4.5: it appends one
  Event row, of severity \<open>INFO\<close> by default and triggered by the user, that refers to the
  entity when one is given. The service does not await it; the row is taken to be written
  when the call returns.
\<close>

definition createEvent :: "EventData \<Rightarrow> db \<Rightarrow> db" where
  "createEvent data d =
     d\<lparr>events := events d @
        [\<lparr>source = ev_source data, triggerer = TRIGGERER_USER, severity = INFO,
          event_type = ev_type data, title = ev_title data, metadata = ev_metadata data,
          sourceUserId = Some (user_id (triggeredBy data)),
          sourceEnvironmentId = map_option env_id (entity data)\<rparr>]\<rparr>"

section \<open>The store's operations on the Environment table\<close>

text \<open>
  The \<open>data\<close> arguments of \<open>environment.create\<close> and \<open>environment.update\<close> as the service
  builds them. In an update, a property that is \<open>undefined\<close> (\<open>None\<close>) leaves the column
  as it is.
\<close>

record CreateData =
  cd_name :: string
  cd_description :: "string option"
  cd_isDefault :: "bool option"
  cd_projectId :: string
  cd_lastUpdatedById :: string

record UpdateData =
  ud_name :: "string option"
  ud_description :: "string option"
  ud_isDefault :: bool
  ud_lastUpdatedById :: string

text \<open>
  The write operations the service hands to the store, either awaited alone or collected
  in the array given to \<open>$transaction\<close>: \<open>environment.updateMany\<close> clearing the default
  flag of a project (the only use of \<open>updateMany\<close>), \<open>environment.create\<close>,
  \<open>environment.update\<close>, \<open>environment.delete\<close>.
\<close>

datatype prisma_op =
  UpdateManyNonDefault string
  | CreateOp CreateData
  | UpdateOp string UpdateData
  | DeleteOp string

datatype op_result = BatchPayload nat | Row Environment

definition user_exists :: "string \<Rightarrow> db \<Rightarrow> bool" where
  "user_exists uid d = list_ex (\<lambda>u. user_id u = uid) (users d)"

definition project_exists :: "string \<Rightarrow> db \<Rightarrow> bool" where
  "project_exists pid d = list_ex (\<lambda>p. project_id p = pid) (projects d)"

text \<open>\<open>@@unique([projectId, name])\<close>: is the pair taken by a row other than \<open>self\<close>?\<close>

definition name_taken :: "string \<Rightarrow> string \<Rightarrow> string \<Rightarrow> db \<Rightarrow> bool" where
  "name_taken pid n self d =
     list_ex (\<lambda>e. projectId e = pid \<and> name e = n \<and> env_id e \<noteq> self) (environments d)"

definition apply_update :: "nat \<Rightarrow> UpdateData \<Rightarrow> Environment \<Rightarrow> Environment" where
  "apply_update t u e =
     e\<lparr>name := (case ud_name u of None \<Rightarrow> name e | Some n \<Rightarrow> n),
       description := (case ud_description u of None \<Rightarrow> description e | Some x \<Rightarrow> Some x),
       isDefault := ud_isDefault u,
       lastUpdatedById := Some (ud_lastUpdatedById u),
       updatedAt := t\<rparr>"

text \<open>What \<open>onDelete: SetNull\<close> does to an event when the environment goes.\<close>

definition forget_environment :: "string \<Rightarrow> Event \<Rightarrow> Event" where
  "forget_environment environmentId ev =
     (if sourceEnvironmentId ev = Some environmentId then ev\<lparr>sourceEnvironmentId := None\<rparr>
      else ev)"

text \<open>
  One statement against the store. A statement that violates a constraint of the schema
  (primary key, \<open>@@unique([projectId, name])\<close>, a foreign key, a missing row for
  \<open>update\<close>/\<open>delete\<close>) fails and changes nothing. Deleting an environment sets the
  \<open>sourceEnvironmentId\<close> of the events that refer to it to null (\<open>onDelete: SetNull\<close>); the
  cascade to secrets and variables concerns tables that are not modelled.
\<close>

fun exec_op :: "generated \<Rightarrow> prisma_op \<Rightarrow> db \<Rightarrow> error + (op_result \<times> db)" where
  "exec_op g (UpdateManyNonDefault pid) d =
     Inr (BatchPayload (length (filter (\<lambda>e. projectId e = pid) (environments d))),
          d\<lparr>environments :=
               map (\<lambda>e. if projectId e = pid then e\<lparr>isDefault := False, updatedAt := now g\<rparr> else e)
                   (environments d)\<rparr>)"
| "exec_op g (CreateOp c) d =
     (if list_ex (\<lambda>e. env_id e = cuid g) (environments d)
         \<or> name_taken (cd_projectId c) (cd_name c) (cuid g) d
         \<or> \<not> project_exists (cd_projectId c) d
         \<or> \<not> user_exists (cd_lastUpdatedById c) d
      then Inl InternalFailure
      else
        let row = \<lparr>env_id = cuid g, name = cd_name c, description = cd_description c,
                   createdAt = now g, updatedAt = now g,
                   isDefault = (case cd_isDefault c of None \<Rightarrow> False | Some b \<Rightarrow> b),
                   lastUpdatedById = Some (cd_lastUpdatedById c),
                   projectId = cd_projectId c\<rparr>
        in Inr (Row row, d\<lparr>environments := environments d @ [row]\<rparr>))"
| "exec_op g (UpdateOp environmentId u) d =
     (case find (\<lambda>e. env_id e = environmentId) (environments d) of
        None \<Rightarrow> Inl InternalFailure
      | Some e \<Rightarrow>
          let row = apply_update (now g) u e in
          if name_taken (projectId row) (name row) environmentId d
             \<or> \<not> user_exists (ud_lastUpdatedById u) d
          then Inl InternalFailure
          else Inr (Row row,
                    d\<lparr>environments :=
                         map (\<lambda>x. if env_id x = environmentId then apply_update (now g) u x else x)
                             (environments d)\<rparr>))"
| "exec_op g (DeleteOp environmentId) d =
     (case find (\<lambda>e. env_id e = environmentId) (environments d) of
        None \<Rightarrow> Inl InternalFailure
      | Some e \<Rightarrow>
          Inr (Row e,
               d\<lparr>environments := filter (\<lambda>x. env_id x \<noteq> environmentId) (environments d),
                 events := map (forget_environment environmentId) (events d)\<rparr>))"

text \<open>
  \<open>$transaction(ops)\<close>: the operations run in order; the result is the list of their
  results. When one fails the transaction fails as a whole and the caller is left with
  the store as it was (the callers below keep their \<open>d\<close> in that case).
\<close>

fun transaction :: "generated \<Rightarrow> prisma_op list \<Rightarrow> db \<Rightarrow> error + (op_result list \<times> db)" where
  "transaction g [] d = Inr ([], d)"
| "transaction g (op # ops) d =
     (case exec_op g op d of
        Inl e \<Rightarrow> Inl e
      | Inr (r, d') \<Rightarrow>
          (case transaction g ops d' of
             Inl e \<Rightarrow> Inl e
           | Inr (rs, d'') \<Rightarrow> Inr (r # rs, d'')))"

section \<open>EnvironmentService\<close>

definition environmentExists :: "string \<Rightarrow> string \<Rightarrow> db \<Rightarrow> Environment option" where
  "environmentExists n projId d =
     find (\<lambda>e. name e = n \<and> projectId e = projId) (environments d)"

definition makeAllNonDefault :: "string \<Rightarrow> prisma_op" where
  "makeAllNonDefault projId = UpdateManyNonDefault projId"

text \<open>
  \<open>createEnvironment\<close>. The result pairs what the caller gets (the exception or the
  created row) with the store after the call. \<open>result[result.length - 1]\<close> is the result of
  the create, the last operation pushed; the case of a batch payload in that position
  makes the definition total and is never taken.
\<close>

definition createEnvironment ::
  "generated \<Rightarrow> User \<Rightarrow> CreateEnvironment \<Rightarrow> string \<Rightarrow> db \<Rightarrow> (error + Environment) \<times> db" where
  "createEnvironment g user dto projId d =
     (case getProjectWithAuthority (user_id user) projId CREATE_ENVIRONMENT d of
        Inl e \<Rightarrow> (Inl e, d)
      | Inr project \<Rightarrow>
          if environmentExists (c_name dto) projId d \<noteq> None then (Inl Conflict, d)
          else
            let ops = (if c_isDefault dto = Some True then [makeAllNonDefault projId] else [])
                      @ [CreateOp \<lparr>cd_name = c_name dto, cd_description = c_description dto,
                                   cd_isDefault = c_isDefault dto, cd_projectId = projId,
                                   cd_lastUpdatedById = user_id user\<rparr>]
            in (case transaction g ops d of
                  Inl e \<Rightarrow> (Inl e, d)
                | Inr (result, d') \<Rightarrow>
                    (case last result of
                       Row environment \<Rightarrow>
                         (Inr environment,
                          createEvent
                            \<lparr>triggeredBy = user, entity = Some environment,
                             ev_type = ENVIRONMENT_ADDED, ev_source = SRC_ENVIRONMENT,
                             ev_title = ''Environment created'',
                             ev_metadata =
                               [(''environmentId'', env_id environment),
                                (''name'', name environment),
                                (''projectId'', projId),
                                (''projectName'', project_name project)]\<rparr> d')
                     | BatchPayload n \<Rightarrow> (Inl InternalFailure, d'))))"

text \<open>
  \<open>updateEnvironment\<close>, in the two phases the source has: the reads and checks up to the
  construction of \<open>ops\<close> (each an awaited statement of its own), and then the single
  \<open>$transaction(ops)\<close> with the event. \<open>dto.name && ...\<close> is false for an absent and for an
  empty name; \<open>dto.isDefault === false\<close> is \<open>Some False\<close>, a truthy \<open>dto.isDefault\<close> is
  \<open>Some True\<close>.
\<close>

definition environment_count :: "string \<Rightarrow> db \<Rightarrow> nat" where
  "environment_count projId d = length (filter (\<lambda>e. projectId e = projId) (environments d))"

definition updateEnvironment_checks ::
  "User \<Rightarrow> UpdateEnvironment \<Rightarrow> string \<Rightarrow> db \<Rightarrow> error + (Environment \<times> prisma_op list)" where
  "updateEnvironment_checks user dto environmentId d =
     (case getEnvironmentWithAuthority (user_id user) environmentId UPDATE_ENVIRONMENT d of
        Inl e \<Rightarrow> Inl e
      | Inr environment \<Rightarrow>
          if (case u_name dto of
                None \<Rightarrow> False
              | Some n \<Rightarrow> n \<noteq> [] \<and>
                  (name environment = n
                   \<or> environmentExists n (projectId environment) d \<noteq> None))
          then Inl Conflict
          else
            let count = environment_count (projectId environment) d in
            if u_isDefault dto = Some False \<and> isDefault environment \<and> count = 1
            then Inl InvalidOperation
            else
              Inr (environment,
                   (if u_isDefault dto = Some True
                    then [makeAllNonDefault (projectId environment)] else [])
                   @ [UpdateOp environmentId
                        \<lparr>ud_name = u_name dto, ud_description = u_description dto,
                         ud_isDefault =
                           (case u_isDefault dto of
                              Some b \<Rightarrow> b
                            | None \<Rightarrow> isDefault environment),
                         ud_lastUpdatedById = user_id user\<rparr>]))"

definition updateEnvironment_commit ::
  "generated \<Rightarrow> User \<Rightarrow> prisma_op list \<Rightarrow> db \<Rightarrow> (error + Environment) \<times> db" where
  "updateEnvironment_commit g user ops d =
     (case transaction g ops d of
        Inl e \<Rightarrow> (Inl e, d)
      | Inr (result, d') \<Rightarrow>
          (case last result of
             Row updatedEnvironment \<Rightarrow>
               (Inr updatedEnvironment,
                createEvent
                  \<lparr>triggeredBy = user, entity = Some updatedEnvironment,
                   ev_type = ENVIRONMENT_UPDATED, ev_source = SRC_ENVIRONMENT,
                   ev_title = ''Environment updated'',
                   ev_metadata =
                     [(''environmentId'', env_id updatedEnvironment),
                      (''name'', name updatedEnvironment),
                      (''projectId'', projectId updatedEnvironment)]\<rparr> d')
           | BatchPayload n \<Rightarrow> (Inl InternalFailure, d')))"

definition updateEnvironment ::
  "generated \<Rightarrow> User \<Rightarrow> UpdateEnvironment \<Rightarrow> string \<Rightarrow> db \<Rightarrow> (error + Environment) \<times> db" where
  "updateEnvironment g user dto environmentId d =
     (case updateEnvironment_checks user dto environmentId d of
        Inl e \<Rightarrow> (Inl e, d)
      | Inr (environment, ops) \<Rightarrow> updateEnvironment_commit g user ops d)"

definition getEnvironment :: "User \<Rightarrow> string \<Rightarrow> db \<Rightarrow> error + Environment" where
  "getEnvironment user environmentId d =
     getEnvironmentWithAuthority (user_id user) environmentId READ_ENVIRONMENT d"

text \<open>
  \<open>deleteEnvironment\<close>. The delete is awaited on its own, outside any transaction; the
  generated values play no part in it.
\<close>

definition deleteEnvironment :: "generated \<Rightarrow> User \<Rightarrow> string \<Rightarrow> db \<Rightarrow> (error + unit) \<times> db" where
  "deleteEnvironment g user environmentId d =
     (case getEnvironmentWithAuthority (user_id user) environmentId DELETE_ENVIRONMENT d of
        Inl e \<Rightarrow> (Inl e, d)
      | Inr environment \<Rightarrow>
          if isDefault environment then (Inl InvalidOperation, d)
          else
            (case exec_op g (DeleteOp environmentId) d of
               Inl e \<Rightarrow> (Inl e, d)
             | Inr (r, d') \<Rightarrow>
                 (Inr (),
                  createEvent
                    \<lparr>triggeredBy = user, entity = None,
                     ev_type = ENVIRONMENT_DELETED, ev_source = SRC_ENVIRONMENT,
                     ev_title = ''Environment deleted'',
                     ev_metadata =
                       [(''environmentId'', env_id environment),
                        (''name'', name environment),
                        (''projectId'', projectId environment)]\<rparr> d')))"

text \<open>
  \<open>getEnvironmentsOfProject\<close>: one \<open>findMany\<close> with \<open>where\<close>, \<open>orderBy\<close>, \<open>skip\<close>, \<open>take\<close> and
  \<open>include: { lastUpdatedBy: true }\<close>, answered by the store (PostgreSQL, by the
  \<open>datasource\<close> of the schema).
\<close>

text \<open>
  \<open>name: { contains: search }\<close> is the comparison \<open>name LIKE '%search%'\<close>, and the search
  string goes into the pattern as it is. In a pattern \<open>%\<close> stands for any run of
  characters, \<open>_\<close> for any one character, a backslash makes the character after it stand
  for itself, and every other character stands for itself; upper and lower case differ.
  A pattern that ends in a lone backslash is rejected.
\<close>

datatype like_token = AnyRun | AnyOne | Lit char

fun like_tokens :: "string \<Rightarrow> like_token list option" where
  "like_tokens [] = Some []"
| "like_tokens (c # cs) =
     (if c = CHR ''%'' then map_option (Cons AnyRun) (like_tokens cs)
      else if c = CHR ''_'' then map_option (Cons AnyOne) (like_tokens cs)
      else if c = CHR 0x5C then
        (case cs of
           [] \<Rightarrow> None
         | q # qs \<Rightarrow> map_option (Cons (Lit q)) (like_tokens qs))
      else map_option (Cons (Lit c)) (like_tokens cs))"

fun like_match :: "like_token list \<Rightarrow> string \<Rightarrow> bool" where
  "like_match [] s = (s = [])"
| "like_match (Lit c # ts) [] = False"
| "like_match (Lit c # ts) (x # xs) = (x = c \<and> like_match ts xs)"
| "like_match (AnyOne # ts) [] = False"
| "like_match (AnyOne # ts) (x # xs) = like_match ts xs"
| "like_match (AnyRun # ts) [] = like_match ts []"
| "like_match (AnyRun # ts) (x # xs) = (like_match ts (x # xs) \<or> like_match (AnyRun # ts) xs)"

text \<open>
  The pattern of \<open>contains\<close> ends in \<open>%\<close>, so it is never rejected (lemma
  \<open>contains_pattern_accepted\<close> below); the case \<open>None\<close> makes the definition total.
\<close>

definition contains :: "string \<Rightarrow> string \<Rightarrow> bool" where
  "contains search s =
     (case like_tokens (CHR ''%'' # search @ [CHR ''%'']) of
        None \<Rightarrow> False
      | Some ts \<Rightarrow> like_match ts s)"

text \<open>
  What the store decides by itself when it orders rows: how it collates strings, and in
  which order it comes upon the rows, which is the order it leaves rows with equal sort
  keys in. Both are parameters of the model.
\<close>

record store_order =
  collate :: "string \<Rightarrow> string \<Rightarrow> bool"
  scan :: "Environment list \<Rightarrow> Environment list"

fun insort_by :: "('a \<Rightarrow> 'a \<Rightarrow> bool) \<Rightarrow> 'a \<Rightarrow> 'a list \<Rightarrow> 'a list" where
  "insort_by le x [] = [x]"
| "insort_by le x (y # ys) = (if le x y then x # y # ys else y # insort_by le x ys)"

definition orderBy :: "('a \<Rightarrow> 'a \<Rightarrow> bool) \<Rightarrow> 'a list \<Rightarrow> 'a list" where
  "orderBy le xs = foldr (insort_by le) xs []"

text \<open>Null sorts after every value in ascending order (and so before, in descending).\<close>

definition nulls_last_le ::
  "(string \<Rightarrow> string \<Rightarrow> bool) \<Rightarrow> string option \<Rightarrow> string option \<Rightarrow> bool" where
  "nulls_last_le le a b =
     (case b of None \<Rightarrow> True | Some y \<Rightarrow> (case a of None \<Rightarrow> False | Some x \<Rightarrow> le x y))"

text \<open>The ascending order of a scalar field of the Environment model, by the field's name.\<close>

definition field_le ::
  "store_order \<Rightarrow> string \<Rightarrow> (Environment \<Rightarrow> Environment \<Rightarrow> bool) option" where
  "field_le st f =
     (if f = ''id'' then Some (\<lambda>a b. collate st (env_id a) (env_id b))
      else if f = ''name'' then Some (\<lambda>a b. collate st (name a) (name b))
      else if f = ''description''
        then Some (\<lambda>a b. nulls_last_le (collate st) (description a) (description b))
      else if f = ''createdAt'' then Some (\<lambda>a b. createdAt a \<le> createdAt b)
      else if f = ''updatedAt'' then Some (\<lambda>a b. updatedAt a \<le> updatedAt b)
      else if f = ''isDefault'' then Some (\<lambda>a b. isDefault a \<longrightarrow> isDefault b)
      else if f = ''lastUpdatedById''
        then Some (\<lambda>a b. nulls_last_le (collate st) (lastUpdatedById a) (lastUpdatedById b))
      else if f = ''projectId'' then Some (\<lambda>a b. collate st (projectId a) (projectId b))
      else None)"

text \<open>\<open>orderBy: { [sort]: order }\<close>; an unknown field or direction is rejected by the store.\<close>

definition order_rel ::
  "store_order \<Rightarrow> string \<Rightarrow> string \<Rightarrow> (Environment \<Rightarrow> Environment \<Rightarrow> bool) option" where
  "order_rel st sort_field order =
     (case field_le st sort_field of
        None \<Rightarrow> None
      | Some le \<Rightarrow>
          if order = ''asc'' then Some le
          else if order = ''desc'' then Some (\<lambda>a b. le b a)
          else None)"

text \<open>\<open>include: { lastUpdatedBy: true }\<close>: the user row the foreign key points to, if any.\<close>

definition lastUpdatedBy :: "Environment \<Rightarrow> db \<Rightarrow> User option" where
  "lastUpdatedBy e d =
     (case lastUpdatedById e of
        None \<Rightarrow> None
      | Some uid \<Rightarrow> find (\<lambda>u. user_id u = uid) (users d))"

definition matching :: "string \<Rightarrow> string \<Rightarrow> db \<Rightarrow> Environment list" where
  "matching projId search d =
     filter (\<lambda>e. projectId e = projId \<and> contains search (name e)) (environments d)"

text \<open>
  \<open>findMany\<close>. \<open>skip\<close> and \<open>take\<close> are integers. The store rejects a negative \<open>skip\<close>. With
  \<open>take\<close> not negative it leaves out the first \<open>skip\<close> rows of the ordered matches and
  returns the next \<open>take\<close>. With a negative \<open>take\<close> it reads from the other end: it leaves
  out the last \<open>skip\<close> rows and returns the \<open>-take\<close> rows before them, in the requested
  order.
\<close>

definition findMany ::
  "store_order \<Rightarrow> string \<Rightarrow> string \<Rightarrow> int \<Rightarrow> int \<Rightarrow> string \<Rightarrow> string \<Rightarrow> db
     \<Rightarrow> error + (Environment \<times> User option) list" where
  "findMany st projId search skip take_n sort_field order d =
     (case order_rel st sort_field order of
        None \<Rightarrow> Inl InternalFailure
      | Some le \<Rightarrow>
          if skip < 0 then Inl InternalFailure
          else
            let ordered = orderBy le (scan st (matching projId search d));
                page = (if 0 \<le> take_n then take (nat take_n) (drop (nat skip) ordered)
                        else rev (take (nat (- take_n)) (drop (nat skip) (rev ordered))))
            in Inr (map (\<lambda>e. (e, lastUpdatedBy e d)) page))"

definition getEnvironmentsOfProject ::
  "store_order \<Rightarrow> User \<Rightarrow> string \<Rightarrow> int \<Rightarrow> int \<Rightarrow> string \<Rightarrow> string \<Rightarrow> string \<Rightarrow> db
     \<Rightarrow> error + (Environment \<times> User option) list" where
  "getEnvironmentsOfProject st user projId page limit sort_field order search d =
     (case getProjectWithAuthority (user_id user) projId READ_ENVIRONMENT d of
        Inl e \<Rightarrow> Inl e
      | Inr project \<Rightarrow> findMany st projId search (page * limit) limit sort_field order d)"

section \<open>Properties of events\<close>


section \<open>Sequences of calls and the default flag\<close>

datatype request =
  CreateReq generated User CreateEnvironment string
  | UpdateReq generated User UpdateEnvironment string
  | DeleteReq generated User string

fun perform :: "request \<Rightarrow> db \<Rightarrow> db" where
  "perform (CreateReq g user dto projId) d = snd (createEnvironment g user dto projId d)"
| "perform (UpdateReq g user dto environmentId) d =
     snd (updateEnvironment g user dto environmentId d)"
| "perform (DeleteReq g user environmentId) d = snd (deleteEnvironment g user environmentId d)"

definition perform_all :: "request list \<Rightarrow> db \<Rightarrow> db" where
  "perform_all reqs d = fold perform reqs d"

definition defaults :: "string \<Rightarrow> db \<Rightarrow> Environment list" where
  "defaults projId d = filter (\<lambda>e. projectId e = projId \<and> isDefault e) (environments d)"

definition ids_distinct :: "db \<Rightarrow> bool" where
  "ids_distinct d = distinct (map env_id (environments d))"

definition at_most_one_default :: "db \<Rightarrow> bool" where
  "at_most_one_default d =
     list_all (\<lambda>e. length (defaults (projectId e) d) \<le> 1) (environments d)"

text \<open>
  A run of \<open>updateEnvironment\<close> in which another request completes after the checks and
  before the transaction: the calls of the service are asynchronous, and every awaited
  statement lets other requests proceed.
\<close>

definition updateEnvironment_interleaved ::
  "generated \<Rightarrow> User \<Rightarrow> UpdateEnvironment \<Rightarrow> string \<Rightarrow> request \<Rightarrow> db
     \<Rightarrow> (error + Environment) \<times> db" where
  "updateEnvironment_interleaved g user dto environmentId other d =
     (case updateEnvironment_checks user dto environmentId d of
        Inl e \<Rightarrow> (Inl e, perform other d)
      | Inr (environment, ops) \<Rightarrow> updateEnvironment_commit g user ops (perform other d))"

section \<open>A small store for concrete runs\<close>

definition alice :: User where
  "alice = \<lparr>user_id = ''u1'', email = ''alice@example.com''\<rparr>"

definition env_prod :: Environment where
  "env_prod =
     \<lparr>env_id = ''e1'', name = ''prod'', description = None, createdAt = 1, updatedAt = 1,
      isDefault = True, lastUpdatedById = Some ''u1'', projectId = ''p1''\<rparr>"

definition env_staging :: Environment where
  "env_staging =
     \<lparr>env_id = ''e2'', name = ''staging'', description = Some ''pre-release'',
      createdAt = 2, updatedAt = 2, isDefault = False,
      lastUpdatedById = Some ''u1'', projectId = ''p1''\<rparr>"

definition demo_db :: "Environment list \<Rightarrow> db" where
  "demo_db envs =
     \<lparr>users = [alice],
      projects = [\<lparr>project_id = ''p1'', project_name = ''shop'', workspaceId = ''w1''\<rparr>],
      members =
        [\<lparr>member_userId = ''u1'', member_workspaceId = ''w1'',
          roles = [\<lparr>hasAdminAuthority = False,
                    authorities = [CREATE_ENVIRONMENT, READ_ENVIRONMENT, UPDATE_ENVIRONMENT,
                                   DELETE_ENVIRONMENT]\<rparr>]\<rparr>],
      environments = envs,
      events = []\<rparr>"

definition env_unnamed :: Environment where
  "env_unnamed =
     \<lparr>env_id = ''e1'', name = '''', description = None, createdAt = 1, updatedAt = 1,
      isDefault = True, lastUpdatedById = Some ''u1'', projectId = ''p1''\<rparr>"

definition env_dev :: Environment where
  "env_dev =
     \<lparr>env_id = ''e3'', name = ''dev-stage'', description = None, createdAt = 3, updatedAt = 3,
      isDefault = False, lastUpdatedById = None, projectId = ''p1''\<rparr>"

definition env_other :: Environment where
  "env_other =
     \<lparr>env_id = ''e4'', name = ''staging'', description = None, createdAt = 4, updatedAt = 4,
      isDefault = True, lastUpdatedById = Some ''u1'', projectId = ''p2''\<rparr>"

text \<open>A store that compares strings character by character and keeps the table order.\<close>

definition plain_store :: store_order where
  "plain_store = \<lparr>collate = (\<lambda>a b. a \<le> b), scan = (\<lambda>xs. xs)\<rparr>"

text \<open>The same store coming upon the rows from the end of the table.\<close>

definition backward_store :: store_order where
  "backward_store = \<lparr>collate = (\<lambda>a b. a \<le> b), scan = rev\<rparr>"

definition gen :: "string \<Rightarrow> nat \<Rightarrow> generated" where
  "gen i t = \<lparr>cuid = i, now = t\<rparr>"

text \<open>
  Three calls on the empty project: create \<open>prod\<close> as the default, create \<open>staging\<close>, then
  update \<open>prod\<close> with \<open>isDefault = false\<close>.
\<close>

definition demote_requests :: "request list" where
  "demote_requests =
     [CreateReq (gen ''e1'' 1) alice
        \<lparr>c_name = ''prod'', c_description = None, c_isDefault = Some True\<rparr> ''p1'',
      CreateReq (gen ''e2'' 2) alice
        \<lparr>c_name = ''staging'', c_description = None, c_isDefault = None\<rparr> ''p1'',
      UpdateReq (gen ''c3'' 3) alice
        \<lparr>u_name = None, u_description = None, u_isDefault = Some False\<rparr> ''e1'']"

text \<open>Create \<open>prod\<close> as the default, create \<open>staging\<close> as the default, delete \<open>prod\<close>.\<close>

definition promote_requests :: "request list" where
  "promote_requests =
     [CreateReq (gen ''e1'' 1) alice
        \<lparr>c_name = ''prod'', c_description = None, c_isDefault = Some True\<rparr> ''p1'',
      CreateReq (gen ''e2'' 2) alice
        \<lparr>c_name = ''staging'', c_description = None, c_isDefault = Some True\<rparr> ''p1'',
      DeleteReq (gen ''c3'' 3) alice ''e1'']"

lemmas demo_defs = alice_def env_prod_def env_staging_def env_unnamed_def env_dev_def
  env_other_def demo_db_def gen_def

lemmas list_defs = getEnvironmentsOfProject_def findMany_def order_rel_def field_le_def
  nulls_last_le_def matching_def contains_def lastUpdatedBy_def orderBy_def
  plain_store_def backward_store_def

lemmas resolver_defs = getProjectWithAuthority_def getEnvironmentWithAuthority_def
  hasAuthority_def effectiveRoles_def role_grants_def

lemmas store_defs = makeAllNonDefault_def name_taken_def project_exists_def user_exists_def
  apply_update_def environmentExists_def environment_count_def createEvent_def Let_def

lemmas service_defs = createEnvironment_def updateEnvironment_def updateEnvironment_checks_def
  updateEnvironment_commit_def deleteEnvironment_def

section \<open>Basic facts\<close>

lemma find_Some_mem: "find P xs = Some x \<Longrightarrow> x \<in> set xs \<and> P x"
  by (induction xs) (auto split: if_splits)

lemma find_map_env:
  "(\<And>x. env_id (f x) = env_id x) \<Longrightarrow>
     find (\<lambda>e. env_id e = i) (map f xs) = map_option f (find (\<lambda>e. env_id e = i) xs)"
  by (induction xs) auto

lemma env_id_apply_update [simp]: "env_id (apply_update t u e) = env_id e"
  by (simp add: apply_update_def)

lemma projectId_apply_update [simp]: "projectId (apply_update t u e) = projectId e"
  by (simp add: apply_update_def)

lemma map_env_id_preserved:
  "(\<And>x. env_id (f x) = env_id x) \<Longrightarrow> map env_id (map f xs) = map env_id xs"
  by (induction xs) simp_all


lemma environments_createEvent [simp]: "environments (createEvent data d) = environments d"
  by (simp add: createEvent_def)

lemma exec_create_result:
  assumes "exec_op g (CreateOp c) d = Inr (r, d')"
  shows "\<exists>row. r = Row row \<and> environments d' = environments d @ [row] \<and> events d' = events d
           \<and> env_id row = cuid g \<and> env_id row \<notin> env_id ` set (environments d)
           \<and> name row = cd_name c \<and> projectId row = cd_projectId c
           \<and> isDefault row = (cd_isDefault c = Some True)"
proof -
  let ?row = "\<lparr>env_id = cuid g, name = cd_name c, description = cd_description c,
               createdAt = now g, updatedAt = now g,
               isDefault = (case cd_isDefault c of None \<Rightarrow> False | Some b \<Rightarrow> b),
               lastUpdatedById = Some (cd_lastUpdatedById c),
               projectId = cd_projectId c\<rparr>"
  from assms have fresh: "\<not> list_ex (\<lambda>e. env_id e = cuid g) (environments d)"
    by (simp split: if_splits)
  with assms have r: "r = Row ?row" and d': "d' = d\<lparr>environments := environments d @ [?row]\<rparr>"
    by (simp_all add: Let_def split: if_splits)
  from fresh have "cuid g \<notin> env_id ` set (environments d)"
    by (auto simp: list_ex_iff)
  moreover have "isDefault ?row = (cd_isDefault c = Some True)"
    by (cases "cd_isDefault c") simp_all
  ultimately show ?thesis using r d' by simp
qed

lemma resolver_returns_stored_row:
  "getEnvironmentWithAuthority uid environmentId a d = Inr environment \<Longrightarrow>
     find (\<lambda>e. env_id e = environmentId) (environments d) = Some environment"
  by (auto simp: getEnvironmentWithAuthority_def split: option.splits if_splits)

text \<open>The store's own failures are the only failures of a statement or a transaction.\<close>

lemma exec_op_error: "exec_op g op d = Inl e \<Longrightarrow> e = InternalFailure"
  by (cases op) (auto simp: Let_def split: option.splits if_splits)

lemma transaction_error: "transaction g ops d = Inl e \<Longrightarrow> e = InternalFailure"
  by (induction ops arbitrary: d)
     (auto split: sum.splits prod.splits dest: exec_op_error)

lemma transaction_append:
  "transaction g (xs @ ys) d =
     (case transaction g xs d of
        Inl e \<Rightarrow> Inl e
      | Inr (rs0, d0) \<Rightarrow>
          (case transaction g ys d0 of
             Inl e \<Rightarrow> Inl e
           | Inr (rs1, d1) \<Rightarrow> Inr (rs0 @ rs1, d1)))"
  by (induction xs arbitrary: d) (auto split: sum.splits prod.splits)

lemma transaction_snoc:
  "transaction g (ops @ [op]) d = Inr (rs, d') \<longleftrightarrow>
     (\<exists>rs0 d0 r. transaction g ops d = Inr (rs0, d0) \<and> exec_op g op d0 = Inr (r, d')
                  \<and> rs = rs0 @ [r])"
  by (auto simp: transaction_append split: sum.splits prod.splits)

text \<open>The transaction of an update ends with the update, whose result is the row.\<close>

lemma transaction_last_row:
  "transaction g (ops @ [UpdateOp i u]) d = Inr (rs, d') \<Longrightarrow> \<exists>row. last rs = Row row"
  by (auto simp: transaction_snoc Let_def split: option.splits if_splits)

lemma exec_update_result:
  assumes "exec_op g (UpdateOp i u) d = Inr (r, d')"
  shows "\<exists>e. find (\<lambda>e. env_id e = i) (environments d) = Some e
             \<and> r = Row (apply_update (now g) u e)
             \<and> find (\<lambda>e. env_id e = i) (environments d') = Some (apply_update (now g) u e)
             \<and> events d' = events d"
proof -
  from assms obtain e where e: "find (\<lambda>e. env_id e = i) (environments d) = Some e"
    by (auto split: option.splits)
  let ?f = "\<lambda>x. if env_id x = i then apply_update (now g) u x else x"
  have id: "\<And>x. env_id (?f x) = env_id x" by simp
  from e have ei: "env_id e = i" by (auto dest: find_Some_mem)
  from assms e have r: "r = Row (apply_update (now g) u e)"
    and d': "d' = d\<lparr>environments := map ?f (environments d)\<rparr>"
    by (auto simp: Let_def split: if_splits)
  have "find (\<lambda>e. env_id e = i) (environments d') = map_option ?f (Some e)"
    unfolding d' using find_map_env[of ?f i "environments d", OF id] e by simp
  with ei r d' e show ?thesis by simp
qed

lemma transaction_pre:
  assumes "transaction g (if b then [makeAllNonDefault p] else []) d = Inr (rs0, d0)"
  shows "events d0 = events d
         \<and> environments d0 =
             (if b then map (\<lambda>e. if projectId e = p then e\<lparr>isDefault := False, updatedAt := now g\<rparr>
                                  else e) (environments d)
              else environments d)"
  using assms by (auto simp: makeAllNonDefault_def split: if_splits)

text \<open>What the checks of \<open>updateEnvironment\<close> hand over when they pass.\<close>

lemma checks_plan:
  assumes "updateEnvironment_checks user dto environmentId d = Inr (environment, ops)"
  shows "getEnvironmentWithAuthority (user_id user) environmentId UPDATE_ENVIRONMENT d
           = Inr environment
         \<and> ops = (if u_isDefault dto = Some True
                  then [makeAllNonDefault (projectId environment)] else [])
                 @ [UpdateOp environmentId
                      \<lparr>ud_name = u_name dto, ud_description = u_description dto,
                       ud_isDefault =
                         (case u_isDefault dto of Some b \<Rightarrow> b | None \<Rightarrow> isDefault environment),
                       ud_lastUpdatedById = user_id user\<rparr>]"
  using assms
  by (auto simp: updateEnvironment_checks_def Let_def split: sum.splits if_splits)

lemma commit_failure:
  assumes "updateEnvironment_commit g user (pre @ [UpdateOp i u]) d = (Inl e, d')"
  shows "d' = d \<and> e = InternalFailure"
proof (cases "transaction g (pre @ [UpdateOp i u]) d")
  case (Inl a)
  with assms show ?thesis
    by (auto simp: updateEnvironment_commit_def dest: transaction_error)
next
  case (Inr b)
  obtain rs d1 where b: "b = (rs, d1)" by (cases b)
  with Inr transaction_last_row[of g pre i u d rs d1] obtain row where
    "last rs = Row row" by auto
  with assms Inr b show ?thesis
    by (simp add: updateEnvironment_commit_def)
qed

text \<open>In a project with one environment, every environment of the project is that one.\<close>

lemma sole_environment:
  assumes "environment_count pid d = 1"
    and "e \<in> set (environments d)" and "projectId e = pid"
    and "x \<in> set (environments d)" and "projectId x = pid"
  shows "x = e"
proof -
  obtain y where y: "filter (\<lambda>e. projectId e = pid) (environments d) = [y]"
    using assms(1) by (auto simp: environment_count_def length_Suc_conv)
  have "e \<in> set (filter (\<lambda>e. projectId e = pid) (environments d))"
       "x \<in> set (filter (\<lambda>e. projectId e = pid) (environments d))"
    using assms(2-5) by auto
  with y show ?thesis by simp
qed

section \<open>Deleting the default environment\<close>

text \<open>
  C4. For a caller whom the authority resolver lets through, \<open>deleteEnvironment\<close> on an
  environment whose \<open>isDefault\<close> is true fails with \<open>InvalidOperation\<close>, whatever the number
  of environments of the project, and the store after the call is the store before it:
  the environment is still there and nothing of it has changed.
\<close>

theorem delete_default_rejected:
  assumes "getEnvironmentWithAuthority (user_id user) environmentId DELETE_ENVIRONMENT d
             = Inr environment"
    and "isDefault environment"
  shows "deleteEnvironment g user environmentId d = (Inl InvalidOperation, d)"
  using assms by (simp add: deleteEnvironment_def)

theorem delete_default_rejected_witness:
  "getEnvironmentWithAuthority (user_id alice) ''e1'' DELETE_ENVIRONMENT
     (demo_db [env_prod, env_staging]) = Inr env_prod
   \<and> isDefault env_prod
   \<and> deleteEnvironment (gen ''c1'' 9) alice ''e1'' (demo_db [env_prod, env_staging])
       = (Inl InvalidOperation, demo_db [env_prod, env_staging])"
proof -
  have a: "getEnvironmentWithAuthority (user_id alice) ''e1'' DELETE_ENVIRONMENT
             (demo_db [env_prod, env_staging]) = Inr env_prod"
    by (simp add: demo_defs resolver_defs)
  have b: "isDefault env_prod" by (simp add: env_prod_def)
  from delete_default_rejected [OF a b] a b show ?thesis by simp
qed

section \<open>Creating under a name that is taken\<close>

text \<open>
  C8. For a caller whom the authority resolver lets through, \<open>createEnvironment\<close> fails
  with \<open>Conflict\<close> whenever some environment of the target project already has the
  requested name, and the store after the call is the store before it: no environment
  is created and none is modified.
\<close>

theorem create_conflict:
  assumes "getProjectWithAuthority (user_id user) projId CREATE_ENVIRONMENT d = Inr project"
    and "e \<in> set (environments d)" and "name e = c_name dto" and "projectId e = projId"
  shows "createEnvironment g user dto projId d = (Inl Conflict, d)"
proof -
  have "environmentExists (c_name dto) projId d \<noteq> None"
    using assms(2-4) by (auto simp: environmentExists_def find_None_iff)
  with assms(1) show ?thesis by (simp add: createEnvironment_def)
qed

theorem create_conflict_witness:
  "env_prod \<in> set (environments (demo_db [env_prod]))
   \<and> createEnvironment (gen ''e9'' 9) alice
        \<lparr>c_name = ''prod'', c_description = None, c_isDefault = Some True\<rparr> ''p1''
        (demo_db [env_prod])
       = (Inl Conflict, demo_db [env_prod])"
proof -
  have a: "getProjectWithAuthority (user_id alice) ''p1'' CREATE_ENVIRONMENT (demo_db [env_prod])
             = Inr \<lparr>project_id = ''p1'', project_name = ''shop'', workspaceId = ''w1''\<rparr>"
    by (simp add: demo_defs resolver_defs)
  have b: "env_prod \<in> set (environments (demo_db [env_prod]))"
    by (simp add: demo_db_def)
  have c: "name env_prod
             = c_name \<lparr>c_name = ''prod'', c_description = None, c_isDefault = Some True\<rparr>"
    by (simp add: env_prod_def)
  have d: "projectId env_prod = ''p1''" by (simp add: env_prod_def)
  from create_conflict [OF a b c d] b show ?thesis by simp
qed

section \<open>The last-environment guard of updateEnvironment\<close>

text \<open>
  C2, as the code has it. Let the authority resolver let the caller through to an
  environment that is the default and the only environment of its project, and let the
  payload carry \<open>isDefault = false\<close>. Then the call fails and leaves the store as it was.
  The failure is \<open>InvalidOperation\<close>, unless the payload also carries the environment's
  current, non-empty name: the name check comes first, and the failure is \<open>Conflict\<close>.
\<close>

theorem update_last_default_rejected:
  assumes "getEnvironmentWithAuthority (user_id user) environmentId UPDATE_ENVIRONMENT d
             = Inr environment"
    and "u_isDefault dto = Some False"
    and "isDefault environment"
    and "environment_count (projectId environment) d = 1"
  shows "updateEnvironment g user dto environmentId d
           = (Inl (if u_name dto = Some (name environment) \<and> name environment \<noteq> []
                   then Conflict else InvalidOperation), d)"
proof -
  have mem: "environment \<in> set (environments d)"
    using resolver_returns_stored_row[OF assms(1)] by (auto dest: find_Some_mem)
  have ex: "environmentExists n (projectId environment) d \<noteq> None \<longleftrightarrow> name environment = n" for n
  proof
    assume "environmentExists n (projectId environment) d \<noteq> None"
    then obtain x where "x \<in> set (environments d)" "name x = n"
      "projectId x = projectId environment"
      by (auto simp: environmentExists_def find_None_iff)
    with sole_environment[OF assms(4) mem refl, of x] show "name environment = n" by auto
  next
    assume "name environment = n"
    with mem show "environmentExists n (projectId environment) d \<noteq> None"
      by (auto simp: environmentExists_def find_None_iff)
  qed
  show ?thesis
    using assms ex
    by (auto simp: updateEnvironment_def updateEnvironment_checks_def split: option.splits)
qed

theorem update_last_default_rejected_witness:
  "getEnvironmentWithAuthority (user_id alice) ''e1'' UPDATE_ENVIRONMENT (demo_db [env_prod])
     = Inr env_prod
   \<and> isDefault env_prod
   \<and> environment_count (projectId env_prod) (demo_db [env_prod]) = 1
   \<and> updateEnvironment (gen ''c1'' 9) alice
        \<lparr>u_name = None, u_description = Some ''live'', u_isDefault = Some False\<rparr> ''e1''
        (demo_db [env_prod])
       = (Inl InvalidOperation, demo_db [env_prod])"
proof -
  have a: "getEnvironmentWithAuthority (user_id alice) ''e1'' UPDATE_ENVIRONMENT
             (demo_db [env_prod]) = Inr env_prod"
    by (simp add: demo_defs resolver_defs)
  have b: "u_isDefault \<lparr>u_name = None, u_description = Some ''live'', u_isDefault = Some False\<rparr>
             = Some False"
    by simp
  have c: "isDefault env_prod" by (simp add: env_prod_def)
  have d: "environment_count (projectId env_prod) (demo_db [env_prod]) = 1"
    by (simp add: demo_defs environment_count_def)
  from update_last_default_rejected [OF a b c d, of "gen ''c1'' 9"] a c d
  show ?thesis by simp
qed

text \<open>
  C2 as stated fails: on the only, default environment \<open>prod\<close> of a project, the payload
  \<open>{name: "prod", isDefault: false}\<close> is rejected with \<open>Conflict\<close>, not \<open>InvalidOperation\<close>.
\<close>

theorem update_last_default_conflict_first:
  "isDefault env_prod \<and> environment_count ''p1'' (demo_db [env_prod]) = 1
   \<and> updateEnvironment (gen ''c1'' 9) alice
        \<lparr>u_name = Some ''prod'', u_description = None, u_isDefault = Some False\<rparr> ''e1''
        (demo_db [env_prod])
       = (Inl Conflict, demo_db [env_prod])"
  by (simp add: demo_defs resolver_defs updateEnvironment_def updateEnvironment_checks_def
        environment_count_def environmentExists_def)

section \<open>The name check of updateEnvironment\<close>

text \<open>
  C3, as the code has it. For a caller whom the authority resolver lets through to the
  environment, \<open>updateEnvironment\<close> with a non-empty name fails with \<open>Conflict\<close>, and leaves
  the store as it was, when the name is the environment's current name and when it is
  the name of an environment of the same project.
\<close>

theorem update_name_conflict:
  assumes "getEnvironmentWithAuthority (user_id user) environmentId UPDATE_ENVIRONMENT d
             = Inr environment"
    and "u_name dto = Some n" and "n \<noteq> []"
    and "name environment = n
         \<or> (\<exists>e \<in> set (environments d). name e = n \<and> projectId e = projectId environment)"
  shows "updateEnvironment g user dto environmentId d = (Inl Conflict, d)"
proof -
  have "name environment = n \<or> environmentExists n (projectId environment) d \<noteq> None"
    using assms(4) by (auto simp: environmentExists_def find_None_iff)
  with assms(1-3) show ?thesis
    by (simp add: updateEnvironment_def updateEnvironment_checks_def)
qed

theorem update_name_conflict_witness:
  "name env_staging = ''staging''
   \<and> updateEnvironment (gen ''c1'' 9) alice
        \<lparr>u_name = Some ''staging'', u_description = None, u_isDefault = None\<rparr> ''e2''
        (demo_db [env_prod, env_staging])
       = (Inl Conflict, demo_db [env_prod, env_staging])
   \<and> updateEnvironment (gen ''c1'' 9) alice
        \<lparr>u_name = Some ''prod'', u_description = None, u_isDefault = None\<rparr> ''e2''
        (demo_db [env_prod, env_staging])
       = (Inl Conflict, demo_db [env_prod, env_staging])"
proof -
  have a: "getEnvironmentWithAuthority (user_id alice) ''e2'' UPDATE_ENVIRONMENT
             (demo_db [env_prod, env_staging]) = Inr env_staging"
    by (simp add: demo_defs resolver_defs)
  have b1: "u_name \<lparr>u_name = Some ''staging'', u_description = None, u_isDefault = None\<rparr>
              = Some ''staging''"
    by simp
  have b2: "u_name \<lparr>u_name = Some ''prod'', u_description = None, u_isDefault = None\<rparr>
              = Some ''prod''"
    by simp
  have c1: "''staging'' \<noteq> []" and c2: "''prod'' \<noteq> []" by simp_all
  have d1: "name env_staging = ''staging''
            \<or> (\<exists>e \<in> set (environments (demo_db [env_prod, env_staging])).
                  name e = ''staging'' \<and> projectId e = projectId env_staging)"
    by (simp add: env_staging_def)
  have d2: "name env_staging = ''prod''
            \<or> (\<exists>e \<in> set (environments (demo_db [env_prod, env_staging])).
                  name e = ''prod'' \<and> projectId e = projectId env_staging)"
    by (simp add: demo_defs)
  from update_name_conflict [OF a b1 c1 d1, of "gen ''c1'' 9"]
       update_name_conflict [OF a b2 c2 d2, of "gen ''c1'' 9"]
  show ?thesis by (simp add: env_staging_def)
qed

text \<open>
  C3 as stated fails for the empty name: \<open>dto.name && ...\<close> skips the check. An environment
  created under the name \<open>""\<close> is updated with its own name \<open>""\<close> and the call succeeds.
\<close>

theorem update_empty_name_succeeds:
  "fst (createEnvironment (gen ''e1'' 1) alice
          \<lparr>c_name = '''', c_description = None, c_isDefault = Some True\<rparr> ''p1'' (demo_db []))
     = Inr env_unnamed
   \<and> name env_unnamed = ''''
   \<and> fst (updateEnvironment (gen ''c2'' 2) alice
            \<lparr>u_name = Some '''', u_description = None, u_isDefault = None\<rparr> ''e1''
            (snd (createEnvironment (gen ''e1'' 1) alice
                    \<lparr>c_name = '''', c_description = None, c_isDefault = Some True\<rparr> ''p1''
                    (demo_db []))))
     = Inr (env_unnamed\<lparr>updatedAt := 2\<rparr>)"
  by (simp add: demo_defs resolver_defs store_defs service_defs)

section \<open>Absent fields of an update\<close>

text \<open>
  C6. After a successful \<open>updateEnvironment\<close> the stored row of the environment is the
  returned one, and every field of the payload that is absent has kept its stored value:
  the name when \<open>name\<close> is absent, the description when \<open>description\<close> is absent, the
  default flag when \<open>isDefault\<close> is absent. The id, the project and the creation time of
  the row never change.
\<close>

theorem update_keeps_absent_fields:
  assumes "updateEnvironment g user dto environmentId d = (Inr updated, d')"
    and "find (\<lambda>e. env_id e = environmentId) (environments d) = Some old"
  shows "find (\<lambda>e. env_id e = environmentId) (environments d') = Some updated
         \<and> (u_name dto = None \<longrightarrow> name updated = name old)
         \<and> (u_description dto = None \<longrightarrow> description updated = description old)
         \<and> (u_isDefault dto = None \<longrightarrow> isDefault updated = isDefault old)
         \<and> env_id updated = env_id old \<and> projectId updated = projectId old
         \<and> createdAt updated = createdAt old"
proof -
  from assms(1) obtain environment ops where
    chk: "updateEnvironment_checks user dto environmentId d = Inr (environment, ops)"
    and com: "updateEnvironment_commit g user ops d = (Inr updated, d')"
    by (auto simp: updateEnvironment_def split: sum.splits)
  let ?u = "\<lparr>ud_name = u_name dto, ud_description = u_description dto,
             ud_isDefault = (case u_isDefault dto of Some b \<Rightarrow> b | None \<Rightarrow> isDefault environment),
             ud_lastUpdatedById = user_id user\<rparr>"
  let ?b = "u_isDefault dto = Some True"
  let ?p = "projectId environment"
  let ?f = "\<lambda>e. if projectId e = ?p then e\<lparr>isDefault := False, updatedAt := now g\<rparr> else e"
  from checks_plan[OF chk] have
    res: "getEnvironmentWithAuthority (user_id user) environmentId UPDATE_ENVIRONMENT d
            = Inr environment"
    and ops: "ops = (if ?b then [makeAllNonDefault ?p] else []) @ [UpdateOp environmentId ?u]"
    by simp_all
  from resolver_returns_stored_row[OF res] assms(2) have old: "environment = old" by simp
  from com obtain rs d2 where
    tr: "transaction g ops d = Inr (rs, d2)" and
    lastrow: "last rs = Row updated" and
    d': "environments d' = environments d2"
    by (auto simp: updateEnvironment_commit_def createEvent_def
             split: sum.splits prod.splits op_result.splits)
  from tr[unfolded ops transaction_snoc] obtain rs0 d0 r where
    pre: "transaction g (if ?b then [makeAllNonDefault ?p] else []) d = Inr (rs0, d0)" and
    ex: "exec_op g (UpdateOp environmentId ?u) d0 = Inr (r, d2)" and
    rs: "rs = rs0 @ [r]"
    by blast
  from exec_update_result[OF ex] obtain e where
    e: "find (\<lambda>e. env_id e = environmentId) (environments d0) = Some e" and
    r: "r = Row (apply_update (now g) ?u e)" and
    fin: "find (\<lambda>e. env_id e = environmentId) (environments d2)
            = Some (apply_update (now g) ?u e)"
    by blast
  from rs r lastrow have upd: "updated = apply_update (now g) ?u e" by simp
  have e_cases: "e = (if ?b then ?f old else old)"
  proof (cases ?b)
    case True
    have "\<And>x. env_id (?f x) = env_id x" by simp
    from find_map_env[of ?f environmentId "environments d", OF this] assms(2)
    have "find (\<lambda>e. env_id e = environmentId) (map ?f (environments d)) = Some (?f old)"
      by simp
    with transaction_pre[OF pre] e True show ?thesis by simp
  next
    case False
    with transaction_pre[OF pre] e assms(2) show ?thesis by simp
  qed
  have 1: "find (\<lambda>e. env_id e = environmentId) (environments d') = Some updated"
    using fin upd d' by simp
  have 2: "u_name dto = None \<longrightarrow> name updated = name old"
    using upd e_cases by (simp add: apply_update_def)
  have 3: "u_description dto = None \<longrightarrow> description updated = description old"
    using upd e_cases by (simp add: apply_update_def)
  have 4: "u_isDefault dto = None \<longrightarrow> isDefault updated = isDefault old"
    using upd e_cases old by (auto simp add: apply_update_def)
  have 5: "env_id updated = env_id old \<and> projectId updated = projectId old
           \<and> createdAt updated = createdAt old"
    using upd e_cases by (simp add: apply_update_def)
  from 1 2 3 4 5 show ?thesis by blast
qed

text \<open>
  A run for C6: only the description of the default environment \<open>prod\<close> is sent; the name
  and the default flag of the stored row are the old ones.
\<close>

theorem update_keeps_absent_fields_witness:
  "updateEnvironment (gen ''c1'' 9) alice
      \<lparr>u_name = None, u_description = Some ''live'', u_isDefault = None\<rparr> ''e1''
      (demo_db [env_prod, env_staging])
     = (Inr (env_prod\<lparr>description := Some ''live'', updatedAt := 9\<rparr>),
        snd (updateEnvironment (gen ''c1'' 9) alice
               \<lparr>u_name = None, u_description = Some ''live'', u_isDefault = None\<rparr> ''e1''
               (demo_db [env_prod, env_staging])))
   \<and> find (\<lambda>e. env_id e = ''e1'')
        (environments
           (snd (updateEnvironment (gen ''c1'' 9) alice
                   \<lparr>u_name = None, u_description = Some ''live'', u_isDefault = None\<rparr> ''e1''
                   (demo_db [env_prod, env_staging]))))
       = Some (env_prod\<lparr>description := Some ''live'', updatedAt := 9\<rparr>)
   \<and> name (env_prod\<lparr>description := Some ''live'', updatedAt := 9\<rparr>) = name env_prod
   \<and> isDefault (env_prod\<lparr>description := Some ''live'', updatedAt := 9\<rparr>) = isDefault env_prod"
proof -
  let ?dto = "\<lparr>u_name = None, u_description = Some ''live'', u_isDefault = None\<rparr>"
  let ?d = "demo_db [env_prod, env_staging]"
  let ?new = "env_prod\<lparr>description := Some ''live'', updatedAt := 9\<rparr>"
  have "fst (updateEnvironment (gen ''c1'' 9) alice ?dto ''e1'' ?d) = Inr ?new"
    by (simp add: demo_defs resolver_defs store_defs service_defs)
  then have a: "updateEnvironment (gen ''c1'' 9) alice ?dto ''e1'' ?d
                  = (Inr ?new, snd (updateEnvironment (gen ''c1'' 9) alice ?dto ''e1'' ?d))"
    by (metis prod.collapse)
  have b: "find (\<lambda>e. env_id e = ''e1'') (environments ?d) = Some env_prod"
    by (simp add: demo_defs)
  from update_keeps_absent_fields [OF a b] a show ?thesis by simp
qed

section \<open>Failing updates write nothing\<close>

text \<open>
  C10. Whenever \<open>updateEnvironment\<close> fails, the store after the call is the store before
  it. A failure with \<open>NotFound\<close>, \<open>Forbidden\<close>, \<open>Conflict\<close> or \<open>InvalidOperation\<close> is the
  outcome of the checks, which come before the list of writes is built and before the
  one transaction that runs it: no write is issued in these calls.
\<close>

theorem update_failure_leaves_store:
  assumes "updateEnvironment g user dto environmentId d = (Inl e, d')"
  shows "d' = d
         \<and> (e \<in> {NotFound, Forbidden, Conflict, InvalidOperation}
              \<longrightarrow> updateEnvironment_checks user dto environmentId d = Inl e)"
proof (cases "updateEnvironment_checks user dto environmentId d")
  case (Inl a)
  with assms show ?thesis by (simp add: updateEnvironment_def)
next
  case (Inr b)
  obtain environment ops where b: "b = (environment, ops)" by (cases b)
  from Inr b checks_plan[of user dto environmentId d environment ops]
  obtain pre i u where ops: "ops = pre @ [UpdateOp i u]" by blast
  from assms Inr b ops have "updateEnvironment_commit g user (pre @ [UpdateOp i u]) d = (Inl e, d')"
    by (simp add: updateEnvironment_def)
  from commit_failure[OF this] show ?thesis by simp
qed

text \<open>
  Runs for C10: a user without any role is refused (\<open>Forbidden\<close>), and an unknown
  environment is \<open>NotFound\<close>; both are outcomes of the checks.
\<close>

theorem update_failure_leaves_store_witness:
  "updateEnvironment (gen ''c1'' 9) \<lparr>user_id = ''u2'', email = ''bob@example.com''\<rparr>
      \<lparr>u_name = Some ''live'', u_description = None, u_isDefault = Some True\<rparr> ''e2''
      (demo_db [env_prod, env_staging])
     = (Inl Forbidden, demo_db [env_prod, env_staging])
   \<and> Forbidden \<in> {NotFound, Forbidden, Conflict, InvalidOperation}
   \<and> updateEnvironment_checks \<lparr>user_id = ''u2'', email = ''bob@example.com''\<rparr>
        \<lparr>u_name = Some ''live'', u_description = None, u_isDefault = Some True\<rparr> ''e2''
        (demo_db [env_prod, env_staging])
       = Inl Forbidden"
proof -
  have a: "updateEnvironment (gen ''c1'' 9) \<lparr>user_id = ''u2'', email = ''bob@example.com''\<rparr>
             \<lparr>u_name = Some ''live'', u_description = None, u_isDefault = Some True\<rparr> ''e2''
             (demo_db [env_prod, env_staging])
           = (Inl Forbidden, demo_db [env_prod, env_staging])"
    by (simp add: demo_defs resolver_defs store_defs service_defs)
  from update_failure_leaves_store [OF a] a show ?thesis by simp
qed

section \<open>Events of the mutations\<close>






section \<open>Listing the environments of a project\<close>

subsection \<open>The pattern of contains\<close>

lemma contains_pattern_accepted: "like_tokens (cs @ [CHR ''%'']) \<noteq> None"
proof (induction cs rule: like_tokens.induct)
  case 1
  show ?case by simp
next
  case (2 c cs)
  show ?case
  proof (cases "c = CHR ''%'' \<or> c = CHR ''_''")
    case True
    with 2 show ?thesis by auto
  next
    case False
    show ?thesis
    proof (cases "c = CHR 0x5C")
      case esc: True
      show ?thesis
      proof (cases cs)
        case Nil
        with esc show ?thesis by simp
      next
        case (Cons q qs)
        with 2(3)[of q qs] False esc show ?thesis by simp
      qed
    next
      case lit: False
      with 2(4) False show ?thesis by simp
    qed
  qed
qed

lemma like_tokens_plain:
  "set w \<inter> {CHR ''%'', CHR ''_'', CHR 0x5C} = {} \<Longrightarrow>
     like_tokens (w @ r) = map_option ((@) (map Lit w)) (like_tokens r)"
proof (induction w)
  case Nil
  show ?case by (cases "like_tokens r") simp_all
next
  case (Cons a w)
  then show ?case by (cases "like_tokens r") auto
qed

lemma like_match_lits:
  "like_match (map Lit w @ ts) s \<longleftrightarrow> (\<exists>r. s = w @ r \<and> like_match ts r)"
proof (induction w arbitrary: s)
  case Nil
  show ?case by simp
next
  case (Cons c w)
  show ?case
  proof (cases s)
    case Nil
    then show ?thesis by simp
  next
    case (Cons x xs)
    with Cons.IH[of xs] show ?thesis by auto
  qed
qed

lemma like_match_anyrun:
  "like_match (AnyRun # ts) s \<longleftrightarrow> (\<exists>u v. s = u @ v \<and> like_match ts v)"
proof (induction s)
  case Nil
  show ?case by simp
next
  case (Cons x xs)
  show ?case
  proof
    assume "like_match (AnyRun # ts) (x # xs)"
    then consider "like_match ts (x # xs)" | "like_match (AnyRun # ts) xs" by auto
    then show "\<exists>u v. x # xs = u @ v \<and> like_match ts v"
    proof cases
      case 1
      then have "x # xs = [] @ (x # xs) \<and> like_match ts (x # xs)" by simp
      then show ?thesis by blast
    next
      case 2
      with Cons.IH obtain u v where "xs = u @ v" "like_match ts v" by blast
      then have "x # xs = (x # u) @ v \<and> like_match ts v" by simp
      then show ?thesis by blast
    qed
  next
    assume "\<exists>u v. x # xs = u @ v \<and> like_match ts v"
    then obtain u v where uv: "x # xs = u @ v" "like_match ts v" by blast
    show "like_match (AnyRun # ts) (x # xs)"
    proof (cases u)
      case Nil
      with uv have "like_match ts (x # xs)" by simp
      then show ?thesis by simp
    next
      case (Cons y u')
      with uv have "xs = u' @ v" by simp
      with uv(2) Cons.IH have "like_match (AnyRun # ts) xs" by blast
      then show ?thesis by simp
    qed
  qed
qed

text \<open>
  For a search string without \<open>%\<close>, \<open>_\<close> and backslash, \<open>contains\<close> is the test for a
  substring.
\<close>

lemma contains_plain:
  assumes "set search \<inter> {CHR ''%'', CHR ''_'', CHR 0x5C} = {}"
  shows "contains search s \<longleftrightarrow> sublist search s"
proof -
  have "like_tokens (search @ [CHR ''%'']) = Some (map Lit search @ [AnyRun])"
    using like_tokens_plain[OF assms, of "[CHR ''%'']"] by simp
  then have c: "contains search s = like_match (AnyRun # map Lit search @ [AnyRun]) s"
    by (simp add: contains_def)
  have all: "like_match [AnyRun] r" for r
    by (simp add: like_match_anyrun)
  have "like_match (AnyRun # map Lit search @ [AnyRun]) s
          \<longleftrightarrow> (\<exists>u v. s = u @ v \<and> (\<exists>r. v = search @ r))"
    by (simp add: like_match_anyrun[of "map Lit search @ [AnyRun]"] like_match_lits all)
  also have "\<dots> \<longleftrightarrow> sublist search s"
    by (auto simp: sublist_def)
  finally show ?thesis using c by simp
qed

subsection \<open>Ordering\<close>

lemma set_insort_by [simp]: "set (insort_by le x xs) = insert x (set xs)"
  by (induction xs) auto

lemma mset_insort_by [simp]: "mset (insort_by le x xs) = add_mset x (mset xs)"
  by (induction xs) auto

lemma sorted_insort_by:
  assumes total: "\<And>a b. le a b \<or> le b a" and trans: "\<And>a b c. le a b \<Longrightarrow> le b c \<Longrightarrow> le a c"
  shows "sorted_wrt le xs \<Longrightarrow> sorted_wrt le (insort_by le x xs)"
proof (induction xs)
  case Nil
  then show ?case by simp
next
  case (Cons y ys)
  show ?case
  proof (cases "le x y")
    case True
    with Cons.prems trans show ?thesis by auto
  next
    case False
    with total have "le y x" by blast
    with Cons False show ?thesis by auto
  qed
qed

lemma mset_orderBy: "mset (orderBy le xs) = mset xs"
  by (induction xs) (simp_all add: orderBy_def)

lemma sorted_orderBy:
  assumes "\<And>a b. le a b \<or> le b a" and "\<And>a b c. le a b \<Longrightarrow> le b c \<Longrightarrow> le a c"
  shows "sorted_wrt le (orderBy le xs)"
proof (induction xs)
  case Nil
  show ?case by (simp add: orderBy_def)
next
  case (Cons x xs)
  have "orderBy le (x # xs) = insort_by le x (orderBy le xs)" by (simp add: orderBy_def)
  with sorted_insort_by[of le "orderBy le xs" x, OF assms Cons] show ?case by simp
qed

lemma nulls_last_le_iff:
  "nulls_last_le le a b \<longleftrightarrow> (b = None \<or> (\<exists>x y. a = Some x \<and> b = Some y \<and> le x y))"
  by (cases a; cases b) (simp_all add: nulls_last_le_def)

text \<open>With a total and transitive collation, so is every order \<open>orderBy\<close> can be given.\<close>

lemma field_le_cases:
  assumes "field_le st f = Some le"
  shows "le = (\<lambda>a b. collate st (env_id a) (env_id b))
       \<or> le = (\<lambda>a b. collate st (name a) (name b))
       \<or> le = (\<lambda>a b. nulls_last_le (collate st) (description a) (description b))
       \<or> le = (\<lambda>a b. createdAt a \<le> createdAt b)
       \<or> le = (\<lambda>a b. updatedAt a \<le> updatedAt b)
       \<or> le = (\<lambda>a b. isDefault a \<longrightarrow> isDefault b)
       \<or> le = (\<lambda>a b. nulls_last_le (collate st) (lastUpdatedById a) (lastUpdatedById b))
       \<or> le = (\<lambda>a b. collate st (projectId a) (projectId b))"
  using assms by (auto simp: field_le_def split: if_splits)

lemma nulls_last_total:
  assumes "\<forall>a b. le a b \<or> le b a"
  shows "nulls_last_le le x y \<or> nulls_last_le le y x"
  using assms by (cases x; cases y) (simp_all add: nulls_last_le_def)

lemma nulls_last_trans:
  assumes "\<forall>a b c. le a b \<longrightarrow> le b c \<longrightarrow> le a c"
    and "nulls_last_le le x y" and "nulls_last_le le y z"
  shows "nulls_last_le le x z"
proof (cases z)
  case None
  then show ?thesis by (simp add: nulls_last_le_def)
next
  case (Some c)
  with assms(3) obtain b where b: "y = Some b" "le b c"
    by (cases y) (simp_all add: nulls_last_le_def)
  with assms(2) obtain a where a: "x = Some a" "le a b"
    by (cases x) (simp_all add: nulls_last_le_def)
  from assms(1) a(2) b(2) have "le a c" by blast
  with Some a(1) show ?thesis by (simp add: nulls_last_le_def)
qed

lemma field_le_total:
  assumes tot: "\<forall>a b. collate st a b \<or> collate st b a"
    and f: "field_le st f = Some le"
  shows "le x y \<or> le y x"
proof -
  note n = nulls_last_total[OF tot]
  from field_le_cases[OF f] show ?thesis
  proof (elim disjE)
    assume "le = (\<lambda>a b. collate st (env_id a) (env_id b))"
    with tot show ?thesis by simp
  next
    assume "le = (\<lambda>a b. collate st (name a) (name b))"
    with tot show ?thesis by simp
  next
    assume "le = (\<lambda>a b. nulls_last_le (collate st) (description a) (description b))"
    with n[of "description x" "description y"] show ?thesis by simp
  next
    assume "le = (\<lambda>a b. createdAt a \<le> createdAt b)"
    then show ?thesis by auto
  next
    assume "le = (\<lambda>a b. updatedAt a \<le> updatedAt b)"
    then show ?thesis by auto
  next
    assume "le = (\<lambda>a b. isDefault a \<longrightarrow> isDefault b)"
    then show ?thesis by auto
  next
    assume "le = (\<lambda>a b. nulls_last_le (collate st) (lastUpdatedById a) (lastUpdatedById b))"
    with n[of "lastUpdatedById x" "lastUpdatedById y"] show ?thesis by simp
  next
    assume "le = (\<lambda>a b. collate st (projectId a) (projectId b))"
    with tot show ?thesis by simp
  qed
qed

lemma field_le_trans:
  assumes trans: "\<forall>a b c. collate st a b \<longrightarrow> collate st b c \<longrightarrow> collate st a c"
    and f: "field_le st f = Some le"
    and xy: "le x y" and yz: "le y z"
  shows "le x z"
proof -
  note n = nulls_last_trans[OF trans]
  from field_le_cases[OF f] show ?thesis
  proof (elim disjE)
    assume "le = (\<lambda>a b. collate st (env_id a) (env_id b))"
    with trans xy yz show ?thesis by blast
  next
    assume "le = (\<lambda>a b. collate st (name a) (name b))"
    with trans xy yz show ?thesis by blast
  next
    assume l: "le = (\<lambda>a b. nulls_last_le (collate st) (description a) (description b))"
    with xy yz n[of "description x" "description y" "description z"] show ?thesis by simp
  next
    assume "le = (\<lambda>a b. createdAt a \<le> createdAt b)"
    with xy yz show ?thesis by auto
  next
    assume "le = (\<lambda>a b. updatedAt a \<le> updatedAt b)"
    with xy yz show ?thesis by auto
  next
    assume "le = (\<lambda>a b. isDefault a \<longrightarrow> isDefault b)"
    with xy yz show ?thesis by auto
  next
    assume l: "le = (\<lambda>a b. nulls_last_le (collate st) (lastUpdatedById a) (lastUpdatedById b))"
    with xy yz n[of "lastUpdatedById x" "lastUpdatedById y" "lastUpdatedById z"]
    show ?thesis by simp
  next
    assume "le = (\<lambda>a b. collate st (projectId a) (projectId b))"
    with trans xy yz show ?thesis by blast
  qed
qed

lemma order_rel_cases:
  assumes "order_rel st f ord = Some le"
  shows "\<exists>le0. field_le st f = Some le0
           \<and> ((ord = ''asc'' \<and> le = le0) \<or> (ord = ''desc'' \<and> le = (\<lambda>a b. le0 b a)))"
  using assms by (auto simp: order_rel_def split: option.splits if_splits)

lemma order_rel_total:
  assumes tot: "\<forall>a b. collate st a b \<or> collate st b a"
    and r: "order_rel st f ord = Some le"
  shows "le x y \<or> le y x"
proof -
  from order_rel_cases[OF r] obtain le0 where
    f: "field_le st f = Some le0" and c: "le = le0 \<or> le = (\<lambda>a b. le0 b a)"
    by blast
  from field_le_total[OF tot f, of x y] c show ?thesis by auto
qed

lemma order_rel_trans:
  assumes trans: "\<forall>a b c. collate st a b \<longrightarrow> collate st b c \<longrightarrow> collate st a c"
    and r: "order_rel st f ord = Some le"
    and xy: "le x y" and yz: "le y z"
  shows "le x z"
proof -
  from order_rel_cases[OF r] obtain le0 where
    f: "field_le st f = Some le0" and c: "le = le0 \<or> le = (\<lambda>a b. le0 b a)"
    by blast
  from c show ?thesis
  proof
    assume "le = le0"
    with field_le_trans[OF trans f, of x y z] xy yz show ?thesis by simp
  next
    assume "le = (\<lambda>a b. le0 b a)"
    with field_le_trans[OF trans f, of z y x] xy yz show ?thesis by simp
  qed
qed

lemma order_rel_field:
  assumes "order_rel st f ord = Some le" and "field_le st f = Some le0"
    and "ord = ''asc'' \<or> ord = ''desc''"
  shows "le = (\<lambda>a b. if ord = ''asc'' then le0 a b else le0 b a)"
  using assms by (auto simp: order_rel_def)

lemma order_rel_valid:
  assumes "f \<in> set [''id'', ''name'', ''description'', ''createdAt'', ''updatedAt'',
                     ''isDefault'', ''lastUpdatedById'', ''projectId'']"
    and "ord = ''asc'' \<or> ord = ''desc''"
  shows "\<exists>le. order_rel st f ord = Some le"
proof -
  from assms(1) obtain le0 where "field_le st f = Some le0"
    by (auto simp: field_le_def)
  with assms(2) show ?thesis by (auto simp: order_rel_def)
qed

subsection \<open>The page that is returned\<close>

text \<open>
  C7, as the code has it. Let the authority resolver let the caller through to the
  project, let \<open>sort\<close> name a scalar field of the Environment model and \<open>order\<close> be \<open>asc\<close>
  or \<open>desc\<close>, let \<open>page * limit\<close> not be negative, and let the store collate strings by a
  total and transitive order and come upon the rows in some order of its own. Then
  \<open>getEnvironmentsOfProject\<close> returns rows, and there is an arrangement of the matches of
  which they are a page:
  \<^item> the arrangement holds, each once, exactly the environments of the project whose name
    matches the pattern \<open>%search%\<close> of the store's \<open>LIKE\<close>; when the search string has no
    \<open>%\<close>, \<open>_\<close> or backslash these are the environments of the project whose name contains
    the search string, case included;
  \<^item> the arrangement is sorted by the named field in the given direction (null after
    every value when ascending); the order among rows with equal keys is the store's;
  \<^item> with \<open>limit\<close> not negative the rows are the arrangement without its first
    \<open>page * limit\<close> entries, cut after \<open>limit\<close>; with a negative \<open>limit\<close> they are read from
    the other end;
  \<^item> every row pairs its environment with the user its \<open>lastUpdatedById\<close> points to.
\<close>

theorem list_environments:
  assumes auth: "getProjectWithAuthority (user_id user) projId READ_ENVIRONMENT d = Inr project"
    and fld: "sort_field \<in> set [''id'', ''name'', ''description'', ''createdAt'', ''updatedAt'',
                                 ''isDefault'', ''lastUpdatedById'', ''projectId'']"
    and dir: "order = ''asc'' \<or> order = ''desc''"
    and skip: "0 \<le> page * limit"
    and perm: "\<forall>xs. mset (scan st xs) = mset xs"
    and tot: "\<forall>a b. collate st a b \<or> collate st b a"
    and trans: "\<forall>a b c. collate st a b \<longrightarrow> collate st b c \<longrightarrow> collate st a c"
  shows "\<exists>rows arranged.
      getEnvironmentsOfProject st user projId page limit sort_field order search d = Inr rows
    \<and> mset arranged
        = mset (filter (\<lambda>e. projectId e = projId \<and> contains search (name e)) (environments d))
    \<and> (set search \<inter> {CHR ''%'', CHR ''_'', CHR 0x5C} = {} \<longrightarrow>
         mset arranged
           = mset (filter (\<lambda>e. projectId e = projId \<and> sublist search (name e))
                          (environments d)))
    \<and> (sort_field = ''id'' \<longrightarrow>
         sorted_wrt (\<lambda>a b. if order = ''asc'' then collate st (env_id a) (env_id b)
                            else collate st (env_id b) (env_id a)) arranged)
    \<and> (sort_field = ''name'' \<longrightarrow>
         sorted_wrt (\<lambda>a b. if order = ''asc'' then collate st (name a) (name b)
                            else collate st (name b) (name a)) arranged)
    \<and> (sort_field = ''description'' \<longrightarrow>
         sorted_wrt (\<lambda>a b.
           if order = ''asc''
           then description b = None
                \<or> (\<exists>x y. description a = Some x \<and> description b = Some y \<and> collate st x y)
           else description a = None
                \<or> (\<exists>x y. description b = Some x \<and> description a = Some y \<and> collate st x y))
           arranged)
    \<and> (sort_field = ''createdAt'' \<longrightarrow>
         sorted_wrt (\<lambda>a b. if order = ''asc'' then createdAt a \<le> createdAt b
                            else createdAt b \<le> createdAt a) arranged)
    \<and> (sort_field = ''updatedAt'' \<longrightarrow>
         sorted_wrt (\<lambda>a b. if order = ''asc'' then updatedAt a \<le> updatedAt b
                            else updatedAt b \<le> updatedAt a) arranged)
    \<and> (sort_field = ''isDefault'' \<longrightarrow>
         sorted_wrt (\<lambda>a b. if order = ''asc'' then (isDefault a \<longrightarrow> isDefault b)
                            else (isDefault b \<longrightarrow> isDefault a)) arranged)
    \<and> (sort_field = ''lastUpdatedById'' \<longrightarrow>
         sorted_wrt (\<lambda>a b.
           if order = ''asc''
           then lastUpdatedById b = None
                \<or> (\<exists>x y. lastUpdatedById a = Some x \<and> lastUpdatedById b = Some y
                          \<and> collate st x y)
           else lastUpdatedById a = None
                \<or> (\<exists>x y. lastUpdatedById b = Some x \<and> lastUpdatedById a = Some y
                          \<and> collate st x y))
           arranged)
    \<and> (sort_field = ''projectId'' \<longrightarrow>
         sorted_wrt (\<lambda>a b. if order = ''asc'' then collate st (projectId a) (projectId b)
                            else collate st (projectId b) (projectId a)) arranged)
    \<and> (0 \<le> limit \<longrightarrow>
         map fst rows = take (nat limit) (drop (nat (page * limit)) arranged)
         \<and> length rows \<le> nat limit)
    \<and> (limit < 0 \<longrightarrow>
         map fst rows = rev (take (nat (- limit)) (drop (nat (page * limit)) (rev arranged))))
    \<and> (\<forall>(e, u) \<in> set rows.
          e \<in> set (environments d) \<and> projectId e = projId \<and> contains search (name e)
          \<and> u = (case lastUpdatedById e of
                   None \<Rightarrow> None
                 | Some uid \<Rightarrow> find (\<lambda>x. user_id x = uid) (users d)))"
proof -
  from order_rel_valid[OF fld dir] obtain le where
    le: "order_rel st sort_field order = Some le" by blast
  let ?m = "filter (\<lambda>e. projectId e = projId \<and> contains search (name e)) (environments d)"
  let ?arr = "orderBy le (scan st ?m)"
  define pg where
    "pg = (if 0 \<le> limit then take (nat limit) (drop (nat (page * limit)) ?arr)
           else rev (take (nat (- limit)) (drop (nat (page * limit)) (rev ?arr))))"
  let ?rows = "map (\<lambda>e. (e, lastUpdatedBy e d)) pg"
  have res: "getEnvironmentsOfProject st user projId page limit sort_field order search d
               = Inr ?rows"
    using auth le skip
    by (simp add: getEnvironmentsOfProject_def findMany_def matching_def Let_def pg_def)
  have ms: "mset ?arr = mset ?m"
    by (simp add: mset_orderBy perm)
  have plain: "set search \<inter> {CHR ''%'', CHR ''_'', CHR 0x5C} = {} \<longrightarrow>
         mset ?arr = mset (filter (\<lambda>e. projectId e = projId \<and> sublist search (name e))
                                  (environments d))"
  proof
    assume "set search \<inter> {CHR ''%'', CHR ''_'', CHR 0x5C} = {}"
    then have "\<And>s. contains search s \<longleftrightarrow> sublist search s" by (rule contains_plain)
    with ms show "mset ?arr = mset (filter (\<lambda>e. projectId e = projId \<and> sublist search (name e))
                                          (environments d))"
      by simp
  qed
  have srt: "sorted_wrt le ?arr"
  proof (rule sorted_orderBy)
    show "\<And>a b. le a b \<or> le b a" by (rule order_rel_total[OF tot le])
    show "\<And>a b c. le a b \<Longrightarrow> le b c \<Longrightarrow> le a c" by (rule order_rel_trans[OF trans le])
  qed
  have s_id: "sort_field = ''id'' \<longrightarrow>
         sorted_wrt (\<lambda>a b. if order = ''asc'' then collate st (env_id a) (env_id b)
                            else collate st (env_id b) (env_id a)) ?arr"
  proof
    assume sf: "sort_field = ''id''"
    have "field_le st sort_field = Some (\<lambda>a b. collate st (env_id a) (env_id b))"
      unfolding sf by (simp add: field_le_def)
    from order_rel_field[OF le this dir]
    have "le a b \<Longrightarrow> (\<lambda>a b. if order = ''asc'' then collate st (env_id a) (env_id b)
                            else collate st (env_id b) (env_id a)) a b" for a b
      by (simp add: nulls_last_le_iff split: if_splits)
    then show "sorted_wrt (\<lambda>a b. if order = ''asc'' then collate st (env_id a) (env_id b)
                            else collate st (env_id b) (env_id a)) ?arr"
      by (rule sorted_wrt_mono_rel[OF _ srt])
  qed
  have s_name: "sort_field = ''name'' \<longrightarrow>
         sorted_wrt (\<lambda>a b. if order = ''asc'' then collate st (name a) (name b)
                            else collate st (name b) (name a)) ?arr"
  proof
    assume sf: "sort_field = ''name''"
    have "field_le st sort_field = Some (\<lambda>a b. collate st (name a) (name b))"
      unfolding sf by (simp add: field_le_def)
    from order_rel_field[OF le this dir]
    have "le a b \<Longrightarrow> (\<lambda>a b. if order = ''asc'' then collate st (name a) (name b)
                            else collate st (name b) (name a)) a b" for a b
      by (simp add: nulls_last_le_iff split: if_splits)
    then show "sorted_wrt (\<lambda>a b. if order = ''asc'' then collate st (name a) (name b)
                            else collate st (name b) (name a)) ?arr"
      by (rule sorted_wrt_mono_rel[OF _ srt])
  qed
  have s_desc: "sort_field = ''description'' \<longrightarrow>
         sorted_wrt (\<lambda>a b.
           if order = ''asc''
           then description b = None
                \<or> (\<exists>x y. description a = Some x \<and> description b = Some y \<and> collate st x y)
           else description a = None
                \<or> (\<exists>x y. description b = Some x \<and> description a = Some y \<and> collate st x y))
           ?arr"
  proof
    assume sf: "sort_field = ''description''"
    have "field_le st sort_field = Some (\<lambda>a b. nulls_last_le (collate st) (description a) (description b))"
      unfolding sf by (simp add: field_le_def)
    from order_rel_field[OF le this dir]
    have "le a b \<Longrightarrow> (\<lambda>a b.
           if order = ''asc''
           then description b = None
                \<or> (\<exists>x y. description a = Some x \<and> description b = Some y \<and> collate st x y)
           else description a = None
                \<or> (\<exists>x y. description b = Some x \<and> description a = Some y \<and> collate st x y)) a b" for a b
      by (simp add: nulls_last_le_iff split: if_splits)
    then show "sorted_wrt (\<lambda>a b.
           if order = ''asc''
           then description b = None
                \<or> (\<exists>x y. description a = Some x \<and> description b = Some y \<and> collate st x y)
           else description a = None
                \<or> (\<exists>x y. description b = Some x \<and> description a = Some y \<and> collate st x y))
           ?arr"
      by (rule sorted_wrt_mono_rel[OF _ srt])
  qed
  have s_created: "sort_field = ''createdAt'' \<longrightarrow>
         sorted_wrt (\<lambda>a b. if order = ''asc'' then createdAt a \<le> createdAt b
                            else createdAt b \<le> createdAt a) ?arr"
  proof
    assume sf: "sort_field = ''createdAt''"
    have "field_le st sort_field = Some (\<lambda>a b. createdAt a \<le> createdAt b)"
      unfolding sf by (simp add: field_le_def)
    from order_rel_field[OF le this dir]
    have "le a b \<Longrightarrow> (\<lambda>a b. if order = ''asc'' then createdAt a \<le> createdAt b
                            else createdAt b \<le> createdAt a) a b" for a b
      by (simp add: nulls_last_le_iff split: if_splits)
    then show "sorted_wrt (\<lambda>a b. if order = ''asc'' then createdAt a \<le> createdAt b
                            else createdAt b \<le> createdAt a) ?arr"
      by (rule sorted_wrt_mono_rel[OF _ srt])
  qed
  have s_updated: "sort_field = ''updatedAt'' \<longrightarrow>
         sorted_wrt (\<lambda>a b. if order = ''asc'' then updatedAt a \<le> updatedAt b
                            else updatedAt b \<le> updatedAt a) ?arr"
  proof
    assume sf: "sort_field = ''updatedAt''"
    have "field_le st sort_field = Some (\<lambda>a b. updatedAt a \<le> updatedAt b)"
      unfolding sf by (simp add: field_le_def)
    from order_rel_field[OF le this dir]
    have "le a b \<Longrightarrow> (\<lambda>a b. if order = ''asc'' then updatedAt a \<le> updatedAt b
                            else updatedAt b \<le> updatedAt a) a b" for a b
      by (simp add: nulls_last_le_iff split: if_splits)
    then show "sorted_wrt (\<lambda>a b. if order = ''asc'' then updatedAt a \<le> updatedAt b
                            else updatedAt b \<le> updatedAt a) ?arr"
      by (rule sorted_wrt_mono_rel[OF _ srt])
  qed
  have s_default: "sort_field = ''isDefault'' \<longrightarrow>
         sorted_wrt (\<lambda>a b. if order = ''asc'' then (isDefault a \<longrightarrow> isDefault b)
                            else (isDefault b \<longrightarrow> isDefault a)) ?arr"
  proof
    assume sf: "sort_field = ''isDefault''"
    have "field_le st sort_field = Some (\<lambda>a b. isDefault a \<longrightarrow> isDefault b)"
      unfolding sf by (simp add: field_le_def)
    from order_rel_field[OF le this dir]
    have "le a b \<Longrightarrow> (\<lambda>a b. if order = ''asc'' then (isDefault a \<longrightarrow> isDefault b)
                            else (isDefault b \<longrightarrow> isDefault a)) a b" for a b
      by (simp add: nulls_last_le_iff split: if_splits)
    then show "sorted_wrt (\<lambda>a b. if order = ''asc'' then (isDefault a \<longrightarrow> isDefault b)
                            else (isDefault b \<longrightarrow> isDefault a)) ?arr"
      by (rule sorted_wrt_mono_rel[OF _ srt])
  qed
  have s_by: "sort_field = ''lastUpdatedById'' \<longrightarrow>
         sorted_wrt (\<lambda>a b.
           if order = ''asc''
           then lastUpdatedById b = None
                \<or> (\<exists>x y. lastUpdatedById a = Some x \<and> lastUpdatedById b = Some y
                          \<and> collate st x y)
           else lastUpdatedById a = None
                \<or> (\<exists>x y. lastUpdatedById b = Some x \<and> lastUpdatedById a = Some y
                          \<and> collate st x y))
           ?arr"
  proof
    assume sf: "sort_field = ''lastUpdatedById''"
    have "field_le st sort_field = Some (\<lambda>a b. nulls_last_le (collate st) (lastUpdatedById a) (lastUpdatedById b))"
      unfolding sf by (simp add: field_le_def)
    from order_rel_field[OF le this dir]
    have "le a b \<Longrightarrow> (\<lambda>a b.
           if order = ''asc''
           then lastUpdatedById b = None
                \<or> (\<exists>x y. lastUpdatedById a = Some x \<and> lastUpdatedById b = Some y
                          \<and> collate st x y)
           else lastUpdatedById a = None
                \<or> (\<exists>x y. lastUpdatedById b = Some x \<and> lastUpdatedById a = Some y
                          \<and> collate st x y)) a b" for a b
      by (simp add: nulls_last_le_iff split: if_splits)
    then show "sorted_wrt (\<lambda>a b.
           if order = ''asc''
           then lastUpdatedById b = None
                \<or> (\<exists>x y. lastUpdatedById a = Some x \<and> lastUpdatedById b = Some y
                          \<and> collate st x y)
           else lastUpdatedById a = None
                \<or> (\<exists>x y. lastUpdatedById b = Some x \<and> lastUpdatedById a = Some y
                          \<and> collate st x y))
           ?arr"
      by (rule sorted_wrt_mono_rel[OF _ srt])
  qed
  have s_project: "sort_field = ''projectId'' \<longrightarrow>
         sorted_wrt (\<lambda>a b. if order = ''asc'' then collate st (projectId a) (projectId b)
                            else collate st (projectId b) (projectId a)) ?arr"
  proof
    assume sf: "sort_field = ''projectId''"
    have "field_le st sort_field = Some (\<lambda>a b. collate st (projectId a) (projectId b))"
      unfolding sf by (simp add: field_le_def)
    from order_rel_field[OF le this dir]
    have "le a b \<Longrightarrow> (\<lambda>a b. if order = ''asc'' then collate st (projectId a) (projectId b)
                            else collate st (projectId b) (projectId a)) a b" for a b
      by (simp add: nulls_last_le_iff split: if_splits)
    then show "sorted_wrt (\<lambda>a b. if order = ''asc'' then collate st (projectId a) (projectId b)
                            else collate st (projectId b) (projectId a)) ?arr"
      by (rule sorted_wrt_mono_rel[OF _ srt])
  qed
  have fwd: "0 \<le> limit \<longrightarrow>
         map fst ?rows = take (nat limit) (drop (nat (page * limit)) ?arr)
         \<and> length ?rows \<le> nat limit"
    by (simp add: comp_def pg_def)
  have bwd: "limit < 0 \<longrightarrow>
         map fst ?rows = rev (take (nat (- limit)) (drop (nat (page * limit)) (rev ?arr)))"
    by (simp add: comp_def pg_def)
  have sub: "set pg \<subseteq> set ?m"
  proof -
    have "set pg \<subseteq> set ?arr"
      unfolding pg_def by (auto dest!: in_set_takeD in_set_dropD)
    also have "set ?arr = set ?m" using ms by (rule mset_eq_setD)
    finally show ?thesis .
  qed
  have mem: "\<forall>(e, u) \<in> set ?rows.
          e \<in> set (environments d) \<and> projectId e = projId \<and> contains search (name e)
          \<and> u = (case lastUpdatedById e of
                   None \<Rightarrow> None
                 | Some uid \<Rightarrow> find (\<lambda>x. user_id x = uid) (users d))"
  proof -
    have "e \<in> set (environments d) \<and> projectId e = projId \<and> contains search (name e)"
      if "e \<in> set pg" for e
      using that sub by auto
    then show ?thesis by (auto simp: lastUpdatedBy_def)
  qed
  show ?thesis
    apply (rule exI[of _ ?rows])
    apply (rule exI[of _ ?arr])
    apply (intro conjI)
                apply (rule res)
               apply (rule ms)
              apply (rule plain)
             apply (rule s_id)
            apply (rule s_name)
           apply (rule s_desc)
          apply (rule s_created)
         apply (rule s_updated)
        apply (rule s_default)
       apply (rule s_by)
      apply (rule s_project)
     apply (rule fwd)
    apply (rule bwd)
    apply (rule mem)
    done
qed

text \<open>
  A run for C7 on three environments of \<open>p1\<close> and one of \<open>p2\<close>: the search \<open>stag\<close> matches
  \<open>staging\<close> and \<open>dev-stage\<close> in \<open>p1\<close>; by name ascending, the page of size one after the
  first holds \<open>staging\<close>, last updated by alice.
\<close>

theorem list_environments_witness:
  "getEnvironmentsOfProject plain_store alice ''p1'' 1 1 ''name'' ''asc'' ''stag''
      (demo_db [env_prod, env_staging, env_other, env_dev])
     = Inr [(env_staging, Some alice)]
   \<and> (\<exists>arranged.
        mset arranged = mset [env_staging, env_dev]
        \<and> sorted_wrt (\<lambda>a b. name a \<le> name b) arranged
        \<and> [env_staging] = take 1 (drop 1 arranged))"
proof -
  let ?d = "demo_db [env_prod, env_staging, env_other, env_dev]"
  have run: "getEnvironmentsOfProject plain_store alice ''p1'' 1 1 ''name'' ''asc'' ''stag'' ?d
               = Inr [(env_staging, Some alice)]"
    by (simp add: list_defs demo_defs resolver_defs)
  have a: "getProjectWithAuthority (user_id alice) ''p1'' READ_ENVIRONMENT ?d
             = Inr \<lparr>project_id = ''p1'', project_name = ''shop'', workspaceId = ''w1''\<rparr>"
    by (simp add: demo_defs resolver_defs)
  have f: "''name'' \<in> set [''id'', ''name'', ''description'', ''createdAt'', ''updatedAt'',
                            ''isDefault'', ''lastUpdatedById'', ''projectId'']"
    by simp
  have o: "''asc'' = ''asc'' \<or> ''asc'' = ''desc''" by simp
  have k: "(0::int) \<le> 1 * 1" by simp
  have p: "\<forall>xs. mset (scan plain_store xs) = mset xs" by (simp add: plain_store_def)
  have t: "\<forall>a b. collate plain_store a b \<or> collate plain_store b a"
    by (simp add: plain_store_def linear)
  have r: "\<forall>a b c. collate plain_store a b \<longrightarrow> collate plain_store b c
             \<longrightarrow> collate plain_store a c"
    unfolding plain_store_def by (simp, intro allI impI, rule order_trans)
  have plainsearch: "set ''stag'' \<inter> {CHR ''%'', CHR ''_'', CHR 0x5C} = {}" by simp
  have m: "filter (\<lambda>e. projectId e = ''p1'' \<and> sublist ''stag'' (name e)) (environments ?d)
             = [env_staging, env_dev]"
    by (simp add: demo_defs sublist_Cons_right)
  from list_environments [OF a f o k p t r, where search = "''stag''"] obtain rows arranged where
    res: "getEnvironmentsOfProject plain_store alice ''p1'' 1 1 ''name'' ''asc'' ''stag'' ?d
            = Inr rows"
    and ms: "set ''stag'' \<inter> {CHR ''%'', CHR ''_'', CHR 0x5C} = {} \<longrightarrow>
         mset arranged
           = mset (filter (\<lambda>e. projectId e = ''p1'' \<and> sublist ''stag'' (name e))
                          (environments ?d))"
    and srt: "''name'' = ''name'' \<longrightarrow>
         sorted_wrt (\<lambda>a b. if ''asc'' = ''asc'' then collate plain_store (name a) (name b)
                            else collate plain_store (name b) (name a)) arranged"
    and pg: "(0::int) \<le> 1 \<longrightarrow>
         map fst rows = take (nat 1) (drop (nat (1 * 1)) arranged) \<and> length rows \<le> nat 1"
    by (elim exE conjE) (rule that; assumption)
  from res run have rows: "rows = [(env_staging, Some alice)]" by simp
  from ms plainsearch m have 1: "mset arranged = mset [env_staging, env_dev]" by simp
  from srt have 2: "sorted_wrt (\<lambda>a b. name a \<le> name b) arranged"
    by (simp add: plain_store_def)
  from pg rows have 3: "[env_staging] = take 1 (drop 1 arranged)" by simp
  show ?thesis
  proof (intro conjI exI)
    show "getEnvironmentsOfProject plain_store alice ''p1'' 1 1 ''name'' ''asc'' ''stag'' ?d
            = Inr [(env_staging, Some alice)]"
      by (rule run)
    show "mset arranged = mset [env_staging, env_dev]" by (rule 1)
    show "sorted_wrt (\<lambda>a b. name a \<le> name b) arranged" by (rule 2)
    show "[env_staging] = take 1 (drop 1 arranged)" by (rule 3)
  qed
qed

text \<open>
  C7 as stated fails. The search string \<open>_\<close> is a pattern for any one character: both
  \<open>prod\<close> and \<open>staging\<close> are returned, and neither name contains an underscore.
\<close>

theorem underscore_matches_any_name:
  "getEnvironmentsOfProject plain_store alice ''p1'' 0 10 ''name'' ''asc'' ''_''
      (demo_db [env_prod, env_staging])
     = Inr [(env_prod, Some alice), (env_staging, Some alice)]
   \<and> \<not> sublist ''_'' (name env_prod) \<and> \<not> sublist ''_'' (name env_staging)"
  by (simp add: list_defs demo_defs resolver_defs sublist_Cons_right)

text \<open>
  The order among equal keys is the store's: sorted by project, the first row of the page
  is the first environment for the one store and the last for the other.
\<close>

lemma ties_follow_the_store:
  "getEnvironmentsOfProject plain_store alice ''p1'' 0 1 ''projectId'' ''asc'' ''''
      (demo_db [env_prod, env_staging, env_dev]) = Inr [(env_prod, Some alice)]
   \<and> getEnvironmentsOfProject backward_store alice ''p1'' 0 1 ''projectId'' ''asc'' ''''
      (demo_db [env_prod, env_staging, env_dev]) = Inr [(env_dev, None)]"
  by (simp add: list_defs demo_defs resolver_defs)

text \<open>A negative \<open>page * limit\<close> is rejected; a negative \<open>limit\<close> alone reads from the end.\<close>

lemma negative_arguments:
  "getEnvironmentsOfProject plain_store alice ''p1'' 1 (- 1) ''name'' ''asc'' ''''
      (demo_db [env_prod, env_staging, env_dev]) = Inl InternalFailure
   \<and> getEnvironmentsOfProject plain_store alice ''p1'' 0 (- 1) ''name'' ''asc'' ''''
      (demo_db [env_prod, env_staging, env_dev]) = Inr [(env_staging, Some alice)]"
  by (simp add: list_defs demo_defs resolver_defs)

section \<open>The default environment of a project\<close>

lemma amo_iff:
  "at_most_one_default d \<longleftrightarrow> (\<forall>pid. length (defaults pid d) \<le> 1)"
proof
  assume a: "at_most_one_default d"
  show "\<forall>pid. length (defaults pid d) \<le> 1"
  proof
    fix pid
    show "length (defaults pid d) \<le> 1"
    proof (cases "\<exists>e \<in> set (environments d). projectId e = pid")
      case True
      with a show ?thesis by (auto simp: at_most_one_default_def list_all_iff)
    next
      case False
      then have "defaults pid d = []" by (auto simp: defaults_def filter_empty_conv)
      then show ?thesis by simp
    qed
  qed
next
  assume "\<forall>pid. length (defaults pid d) \<le> 1"
  then show "at_most_one_default d" by (simp add: at_most_one_default_def list_all_iff)
qed

lemma length_filter_mono:
  "(\<And>x. x \<in> set xs \<Longrightarrow> P x \<Longrightarrow> Q x) \<Longrightarrow> length (filter P xs) \<le> length (filter Q xs)"
  by (induction xs) auto

lemma distinct_ids_filter:
  "distinct (map env_id xs) \<Longrightarrow> length (filter (\<lambda>e. env_id e = i) xs) \<le> 1"
proof (induction xs)
  case Nil
  then show ?case by simp
next
  case (Cons x xs)
  show ?case
  proof (cases "env_id x = i")
    case True
    with Cons.prems have "filter (\<lambda>e. env_id e = i) xs = []"
      by (auto simp: filter_empty_conv image_iff)
    with True show ?thesis by simp
  next
    case False
    with Cons show ?thesis by simp
  qed
qed

lemma distinct_find_unique:
  assumes "distinct (map env_id xs)" and "find (\<lambda>e. env_id e = i) xs = Some e"
    and "x \<in> set xs" and "env_id x = i"
  shows "x = e"
proof -
  from assms(2) have "e \<in> set xs" "env_id e = i" by (auto dest: find_Some_mem)
  with assms(1,3,4) show ?thesis by (auto simp: distinct_map dest: inj_onD)
qed

text \<open>The Environment table after each call: untouched, or what the transaction wrote.\<close>

lemma create_envs:
  "environments (snd (createEnvironment g user dto projId d)) = environments d
   \<or> (\<exists>row. env_id row \<notin> env_id ` set (environments d)
          \<and> projectId row = projId
          \<and> (isDefault row \<longrightarrow> c_isDefault dto = Some True)
          \<and> environments (snd (createEnvironment g user dto projId d))
              = (if c_isDefault dto = Some True
                 then map (\<lambda>e. if projectId e = projId
                                then e\<lparr>isDefault := False, updatedAt := now g\<rparr> else e)
                          (environments d)
                 else environments d) @ [row])"
proof (cases "getProjectWithAuthority (user_id user) projId CREATE_ENVIRONMENT d")
  case (Inl e)
  then show ?thesis by (simp add: createEnvironment_def)
next
  case (Inr project)
  show ?thesis
  proof (cases "environmentExists (c_name dto) projId d \<noteq> None")
    case True
    with Inr show ?thesis by (auto simp: createEnvironment_def)
  next
    case False
    let ?b = "c_isDefault dto = Some True"
    let ?c = "\<lparr>cd_name = c_name dto, cd_description = c_description dto,
               cd_isDefault = c_isDefault dto, cd_projectId = projId,
               cd_lastUpdatedById = user_id user\<rparr>"
    let ?ops = "(if ?b then [makeAllNonDefault projId] else []) @ [CreateOp ?c]"
    let ?clr = "\<lambda>e. if projectId e = projId
                     then e\<lparr>isDefault := False, updatedAt := now g\<rparr> else e"
    show ?thesis
    proof (cases "transaction g ?ops d")
      case (Inl e)
      with Inr False show ?thesis by (auto simp: createEnvironment_def)
    next
      case tr: (Inr b)
      obtain rs d2 where b: "b = (rs, d2)" by (cases b)
      from tr[unfolded b transaction_snoc] obtain rs0 d0 r0 where
        pre: "transaction g (if ?b then [makeAllNonDefault projId] else []) d = Inr (rs0, d0)" and
        ex: "exec_op g (CreateOp ?c) d0 = Inr (r0, d2)" and
        rs: "rs = rs0 @ [r0]"
        by blast
      from exec_create_result[OF ex] obtain row where
        row: "r0 = Row row" "environments d2 = environments d0 @ [row]"
          "env_id row \<notin> env_id ` set (environments d0)" "projectId row = projId"
          "isDefault row = ?b"
        by auto
      from transaction_pre[OF pre]
      have d0: "environments d0 = (if ?b then map ?clr (environments d) else environments d)"
        by simp
      have "map env_id (environments d0) = map env_id (environments d)"
        unfolding d0 by (simp add: map_env_id_preserved)
      then have "env_id ` set (environments d0) = env_id ` set (environments d)"
        by (metis set_map)
      with row(3) have fresh: "env_id row \<notin> env_id ` set (environments d)" by simp
      from rs row(1) have lastrow: "last rs = Row row" by simp
      from Inr False tr b lastrow
      have "environments (snd (createEnvironment g user dto projId d)) = environments d2"
        by (auto simp: createEnvironment_def Let_def)
      with row d0 fresh show ?thesis
        by (intro disjI2 exI[of _ row]) simp
    qed
  qed
qed

lemma update_envs:
  "environments (snd (updateEnvironment g user dto environmentId d)) = environments d
   \<or> (\<exists>old u. find (\<lambda>e. env_id e = environmentId) (environments d) = Some old
          \<and> (u_isDefault dto \<noteq> Some True \<longrightarrow> ud_isDefault u \<longrightarrow> isDefault old)
          \<and> environments (snd (updateEnvironment g user dto environmentId d))
              = map (\<lambda>x. if env_id x = environmentId then apply_update (now g) u x else x)
                  (if u_isDefault dto = Some True
                   then map (\<lambda>e. if projectId e = projectId old
                                  then e\<lparr>isDefault := False, updatedAt := now g\<rparr> else e)
                            (environments d)
                   else environments d))"
proof (cases "updateEnvironment_checks user dto environmentId d")
  case (Inl e)
  then show ?thesis by (simp add: updateEnvironment_def)
next
  case (Inr b)
  obtain environment ops where b: "b = (environment, ops)" by (cases b)
  let ?b = "u_isDefault dto = Some True"
  let ?u = "\<lparr>ud_name = u_name dto, ud_description = u_description dto,
             ud_isDefault = (case u_isDefault dto of Some b \<Rightarrow> b | None \<Rightarrow> isDefault environment),
             ud_lastUpdatedById = user_id user\<rparr>"
  from checks_plan[OF Inr[unfolded b]] have
    res: "getEnvironmentWithAuthority (user_id user) environmentId UPDATE_ENVIRONMENT d
            = Inr environment" and
    ops: "ops = (if ?b then [makeAllNonDefault (projectId environment)] else [])
                @ [UpdateOp environmentId ?u]"
    by simp_all
  from resolver_returns_stored_row[OF res]
  have old: "find (\<lambda>e. env_id e = environmentId) (environments d) = Some environment" .
  have flag: "u_isDefault dto \<noteq> Some True \<longrightarrow> ud_isDefault ?u \<longrightarrow> isDefault environment"
    by (cases "u_isDefault dto") auto
  have com: "snd (updateEnvironment g user dto environmentId d)
               = snd (updateEnvironment_commit g user ops d)"
    using Inr b by (simp add: updateEnvironment_def)
  show ?thesis
  proof (cases "transaction g ops d")
    case (Inl e)
    with com show ?thesis by (simp add: updateEnvironment_commit_def)
  next
    case tr: (Inr c)
    obtain rs d2 where c: "c = (rs, d2)" by (cases c)
    from tr[unfolded c ops transaction_snoc] obtain rs0 d0 r0 where
      pre: "transaction g (if ?b then [makeAllNonDefault (projectId environment)] else []) d
              = Inr (rs0, d0)" and
      ex: "exec_op g (UpdateOp environmentId ?u) d0 = Inr (r0, d2)"
      by blast
    from ex have d2: "environments d2
        = map (\<lambda>x. if env_id x = environmentId then apply_update (now g) ?u x else x)
            (environments d0)"
      by (auto simp: Let_def split: option.splits if_splits)
    from com tr c have "environments (snd (updateEnvironment g user dto environmentId d))
        = environments d2"
      by (auto simp: updateEnvironment_commit_def split: op_result.splits)
    with d2 transaction_pre[OF pre] old flag show ?thesis
      by (intro disjI2 exI[of _ environment] exI[of _ ?u]) simp
  qed
qed

lemma delete_envs:
  "environments (snd (deleteEnvironment g user environmentId d)) = environments d
   \<or> environments (snd (deleteEnvironment g user environmentId d))
       = filter (\<lambda>x. env_id x \<noteq> environmentId) (environments d)"
  by (auto simp: deleteEnvironment_def split: sum.splits if_splits option.splits)

text \<open>Counting the defaults of a project in the tables that the calls produce.\<close>

lemma length_filter_map:
  "length (filter P (map f xs)) = length (filter (\<lambda>x. P (f x)) xs)"
  by (induction xs) simp_all

lemma cleared_none:
  "filter (\<lambda>e. projectId e = p \<and> isDefault e)
     (map (\<lambda>e. if projectId e = p then e\<lparr>isDefault := False, updatedAt := t\<rparr> else e) xs) = []"
  by (induction xs) simp_all

lemma cleared_le:
  "length (filter (\<lambda>e. projectId e = q \<and> isDefault e)
     (map (\<lambda>e. if projectId e = p then e\<lparr>isDefault := False, updatedAt := t\<rparr> else e) xs))
   \<le> length (filter (\<lambda>e. projectId e = q \<and> isDefault e) xs)"
  unfolding length_filter_map by (rule length_filter_mono) (simp split: if_splits)

lemma defaults_same:
  "environments d' = environments d \<Longrightarrow> defaults q d' = defaults q d"
  by (simp add: defaults_def)

lemma inv_create:
  assumes ids: "ids_distinct d" and amo: "\<forall>q. length (defaults q d) \<le> 1"
  shows "ids_distinct (snd (createEnvironment g user dto projId d))
         \<and> (\<forall>q. length (defaults q (snd (createEnvironment g user dto projId d))) \<le> 1)"
proof -
  let ?d' = "snd (createEnvironment g user dto projId d)"
  let ?b = "c_isDefault dto = Some True"
  let ?clr = "\<lambda>e. if projectId e = projId
                   then e\<lparr>isDefault := False, updatedAt := now g\<rparr> else e"
  let ?base = "if ?b then map ?clr (environments d) else environments d"
  from create_envs[of g user dto projId d] show ?thesis
  proof
    assume "environments ?d' = environments d"
    with ids amo show ?thesis by (simp add: ids_distinct_def defaults_def)
  next
    assume "\<exists>row. env_id row \<notin> env_id ` set (environments d) \<and> projectId row = projId
              \<and> (isDefault row \<longrightarrow> ?b) \<and> environments ?d' = ?base @ [row]"
    then obtain row where
      fresh: "env_id row \<notin> env_id ` set (environments d)" and
      prow: "projectId row = projId" and
      drow: "isDefault row \<longrightarrow> ?b" and
      envs: "environments ?d' = ?base @ [row]"
      by blast
    have mapid: "map env_id ?base = map env_id (environments d)"
      by (simp add: map_env_id_preserved)
    have 1: "ids_distinct ?d'"
      using ids fresh unfolding ids_distinct_def envs
      by (simp only: map_append mapid) simp
    have 2: "length (defaults q ?d') \<le> 1" for q
    proof (cases ?b)
      case True
      show ?thesis
      proof (cases "q = projId")
        case qp: True
        have "filter (\<lambda>e. projectId e = projId \<and> isDefault e) (map ?clr (environments d)) = []"
          by (rule cleared_none)
        with True qp show ?thesis by (simp add: defaults_def envs)
      next
        case False
        have "length (filter (\<lambda>e. projectId e = q \<and> isDefault e) (map ?clr (environments d)))
                \<le> length (defaults q d)"
          unfolding defaults_def by (rule cleared_le)
        with amo have "length (filter (\<lambda>e. projectId e = q \<and> isDefault e)
                                 (map ?clr (environments d))) \<le> 1"
          by (meson le_trans)
        with True False prow show ?thesis by (simp add: defaults_def envs)
      qed
    next
      case False
      with drow have "\<not> isDefault row" by simp
      with False amo show ?thesis by (simp add: defaults_def envs)
    qed
    from 1 2 show ?thesis by simp
  qed
qed

lemma inv_delete:
  assumes ids: "ids_distinct d" and amo: "\<forall>q. length (defaults q d) \<le> 1"
  shows "ids_distinct (snd (deleteEnvironment g user environmentId d))
         \<and> (\<forall>q. length (defaults q (snd (deleteEnvironment g user environmentId d))) \<le> 1)"
proof -
  let ?d' = "snd (deleteEnvironment g user environmentId d)"
  from delete_envs[of g user environmentId d] show ?thesis
  proof
    assume "environments ?d' = environments d"
    with ids amo show ?thesis by (simp add: ids_distinct_def defaults_def)
  next
    assume envs: "environments ?d' = filter (\<lambda>x. env_id x \<noteq> environmentId) (environments d)"
    have 1: "ids_distinct ?d'"
      using ids unfolding ids_distinct_def envs by (rule distinct_map_filter)
    have 2: "length (defaults q ?d') \<le> 1" for q
    proof -
      have "length (defaults q ?d') \<le> length (defaults q d)"
        unfolding defaults_def envs filter_filter
        by (rule length_filter_mono) simp
      with amo show ?thesis by (meson le_trans)
    qed
    from 1 2 show ?thesis by simp
  qed
qed

lemma inv_update:
  assumes ids: "ids_distinct d" and amo: "\<forall>q. length (defaults q d) \<le> 1"
  shows "ids_distinct (snd (updateEnvironment g user dto environmentId d))
         \<and> (\<forall>q. length (defaults q (snd (updateEnvironment g user dto environmentId d))) \<le> 1)"
proof -
  let ?d' = "snd (updateEnvironment g user dto environmentId d)"
  let ?b = "u_isDefault dto = Some True"
  from update_envs[of g user dto environmentId d] show ?thesis
  proof
    assume "environments ?d' = environments d"
    with ids amo show ?thesis by (simp add: ids_distinct_def defaults_def)
  next
    assume "\<exists>old u. find (\<lambda>e. env_id e = environmentId) (environments d) = Some old
          \<and> (u_isDefault dto \<noteq> Some True \<longrightarrow> ud_isDefault u \<longrightarrow> isDefault old)
          \<and> environments ?d'
              = map (\<lambda>x. if env_id x = environmentId then apply_update (now g) u x else x)
                  (if u_isDefault dto = Some True
                   then map (\<lambda>e. if projectId e = projectId old
                                  then e\<lparr>isDefault := False, updatedAt := now g\<rparr> else e)
                            (environments d)
                   else environments d)"
    then obtain old u where
      old: "find (\<lambda>e. env_id e = environmentId) (environments d) = Some old" and
      flag: "\<not> ?b \<Longrightarrow> ud_isDefault u \<Longrightarrow> isDefault old" and
      envs: "environments ?d'
              = map (\<lambda>x. if env_id x = environmentId then apply_update (now g) u x else x)
                  (if ?b
                   then map (\<lambda>e. if projectId e = projectId old
                                  then e\<lparr>isDefault := False, updatedAt := now g\<rparr> else e)
                            (environments d)
                   else environments d)"
      by blast
    let ?f = "\<lambda>x. if env_id x = environmentId then apply_update (now g) u x else x"
    let ?clr = "\<lambda>e. if projectId e = projectId old
                     then e\<lparr>isDefault := False, updatedAt := now g\<rparr> else e"
    let ?base = "if ?b then map ?clr (environments d) else environments d"
    have dist: "distinct (map env_id (environments d))" using ids by (simp add: ids_distinct_def)
    have base_ids: "map env_id ?base = map env_id (environments d)"
      by (simp add: map_env_id_preserved)
    have "map env_id (map ?f ?base) = map env_id ?base"
      by (rule map_env_id_preserved) simp
    with base_ids dist have 1: "ids_distinct ?d'"
      unfolding ids_distinct_def envs by simp
    have uniq: "x = old" if "x \<in> set (environments d)" "env_id x = environmentId" for x
      using distinct_find_unique[OF dist old that] .
    have 2: "length (defaults q ?d') \<le> 1" for q
    proof (cases ?b)
      case False
      with envs have envs_F: "environments ?d' = map ?f (environments d)" by simp
      have "length (defaults q ?d')
              = length (filter (\<lambda>x. projectId (?f x) = q \<and> isDefault (?f x)) (environments d))"
        unfolding defaults_def envs_F by (rule length_filter_map)
      also have "\<dots> \<le> length (filter (\<lambda>x. projectId x = q \<and> isDefault x) (environments d))"
      proof (rule length_filter_mono)
        fix x assume x: "x \<in> set (environments d)"
          and q: "projectId (?f x) = q \<and> isDefault (?f x)"
        show "projectId x = q \<and> isDefault x"
        proof (cases "env_id x = environmentId")
          case True
          with uniq x have "x = old" by simp
          with q True flag[OF False] show ?thesis by (simp add: apply_update_def)
        next
          case False
          with q show ?thesis by simp
        qed
      qed
      also have "\<dots> \<le> 1" using amo by (simp add: defaults_def)
      finally show ?thesis .
    next
      case True
      with envs have envs_T: "environments ?d' = map ?f (map ?clr (environments d))" by simp
      have clr_ids: "map env_id (map ?clr (environments d)) = map env_id (environments d)"
        by (rule map_env_id_preserved) simp
      have dist_base: "distinct (map env_id (map ?clr (environments d)))"
        unfolding clr_ids by (rule dist)
      have in_p: "projectId x = projectId old"
        if "x \<in> set (map ?clr (environments d))" "env_id x = environmentId" for x
      proof -
        from that(1) obtain y where y: "y \<in> set (environments d)" "x = ?clr y" by auto
        with that(2) have "env_id y = environmentId" by (simp split: if_splits)
        with uniq y(1) have "y = old" by simp
        with y(2) show ?thesis by simp
      qed
      have len: "length (defaults q ?d')
              = length (filter (\<lambda>x. projectId (?f x) = q \<and> isDefault (?f x))
                          (map ?clr (environments d)))"
        unfolding defaults_def envs_T by (rule length_filter_map)
      show ?thesis
      proof (cases "q = projectId old")
        case qp: True
        have none: "\<not> (projectId x = projectId old \<and> isDefault x)"
          if "x \<in> set (map ?clr (environments d))" for x
          using that by (auto split: if_splits)
        note len
        also have "length (filter (\<lambda>x. projectId (?f x) = q \<and> isDefault (?f x))
                             (map ?clr (environments d)))
                \<le> length (filter (\<lambda>e. env_id e = environmentId) (map ?clr (environments d)))"
        proof (rule length_filter_mono)
          fix x assume x: "x \<in> set (map ?clr (environments d))"
            and q: "projectId (?f x) = q \<and> isDefault (?f x)"
          show "env_id x = environmentId"
          proof (rule ccontr)
            assume "env_id x \<noteq> environmentId"
            with q qp have "projectId x = projectId old \<and> isDefault x" by simp
            with none[OF x] show False by simp
          qed
        qed
        also have "\<dots> \<le> 1" using dist_base by (rule distinct_ids_filter)
        finally show ?thesis .
      next
        case qp: False
        note len
        also have "length (filter (\<lambda>x. projectId (?f x) = q \<and> isDefault (?f x))
                             (map ?clr (environments d)))
                \<le> length (filter (\<lambda>e. projectId e = q \<and> isDefault e) (map ?clr (environments d)))"
        proof (rule length_filter_mono)
          fix x assume x: "x \<in> set (map ?clr (environments d))"
            and q: "projectId (?f x) = q \<and> isDefault (?f x)"
          show "projectId x = q \<and> isDefault x"
          proof (cases "env_id x = environmentId")
            case True
            with in_p[OF x] q qp show ?thesis by simp
          next
            case False
            with q show ?thesis by simp
          qed
        qed
        also have "\<dots> \<le> length (filter (\<lambda>e. projectId e = q \<and> isDefault e) (environments d))"
          by (rule cleared_le)
        also have "\<dots> \<le> 1" using amo by (simp add: defaults_def)
        finally show ?thesis .
      qed
    qed
    from 1 2 show ?thesis by simp
  qed
qed

lemma inv_perform:
  assumes "ids_distinct d" and "\<forall>q. length (defaults q d) \<le> 1"
  shows "ids_distinct (perform req d) \<and> (\<forall>q. length (defaults q (perform req d)) \<le> 1)"
proof (cases req)
  case (CreateReq g user dto projId)
  with inv_create[OF assms] show ?thesis by simp
next
  case (UpdateReq g user dto environmentId)
  with inv_update[OF assms] show ?thesis by simp
next
  case (DeleteReq g user environmentId)
  with inv_delete[OF assms] show ?thesis by simp
qed

lemma inv_perform_all:
  "ids_distinct d \<Longrightarrow> \<forall>q. length (defaults q d) \<le> 1 \<Longrightarrow>
     ids_distinct (perform_all reqs d) \<and> (\<forall>q. length (defaults q (perform_all reqs d)) \<le> 1)"
proof (induction reqs arbitrary: d)
  case Nil
  then show ?case by (simp add: perform_all_def)
next
  case (Cons req reqs)
  from inv_perform[OF Cons.prems, of req] Cons.IH[of "perform req d"]
  show ?case by (simp add: perform_all_def)
qed

text \<open>
  C1, as the code has it. Start from a store whose environment ids are distinct and in
  which no project has more than one default environment (the empty table is one). After
  any sequence of completed \<open>createEnvironment\<close>, \<open>updateEnvironment\<close> and
  \<open>deleteEnvironment\<close> calls, whether they succeed or fail, every project has at most one
  environment with \<open>isDefault = true\<close>.
\<close>

theorem default_at_most_one:
  assumes "ids_distinct d" and "at_most_one_default d"
  shows "ids_distinct (perform_all reqs d) \<and> at_most_one_default (perform_all reqs d)
         \<and> length (defaults projId (perform_all reqs d)) \<le> 1"
proof -
  from assms(2) have "\<forall>q. length (defaults q d) \<le> 1" by (simp add: amo_iff)
  from inv_perform_all[OF assms(1) this, of reqs]
  have ids: "ids_distinct (perform_all reqs d)"
    and amo: "\<forall>q. length (defaults q (perform_all reqs d)) \<le> 1"
    by simp_all
  from amo have "at_most_one_default (perform_all reqs d)" by (simp add: amo_iff)
  with ids amo show ?thesis by simp
qed

lemma promote_run:
  "environments (perform_all promote_requests (demo_db [])) =
     [\<lparr>env_id = ''e2'', name = ''staging'', description = None, createdAt = 2, updatedAt = 2,
       isDefault = True, lastUpdatedById = Some ''u1'', projectId = ''p1''\<rparr>]"
  by (simp add: promote_requests_def perform_all_def demo_defs resolver_defs store_defs
        service_defs forget_environment_def)

text \<open>
  A run for C1: \<open>prod\<close> is created as the default, \<open>staging\<close> is created as the default
  (which clears \<open>prod\<close>), a delete of \<open>prod\<close> follows. One default is left, \<open>staging\<close>.
\<close>

theorem default_at_most_one_witness:
  "ids_distinct (demo_db []) \<and> at_most_one_default (demo_db [])
   \<and> at_most_one_default (perform_all promote_requests (demo_db []))
   \<and> length (defaults ''p1'' (perform_all promote_requests (demo_db []))) \<le> 1
   \<and> map name (defaults ''p1'' (perform_all promote_requests (demo_db []))) = [''staging'']"
proof -
  have a: "ids_distinct (demo_db [])" by (simp add: ids_distinct_def demo_db_def)
  have b: "at_most_one_default (demo_db [])" by (simp add: at_most_one_default_def demo_db_def)
  have c: "map name (defaults ''p1'' (perform_all promote_requests (demo_db []))) = [''staging'']"
    by (simp add: defaults_def promote_run)
  from default_at_most_one [OF a b, of promote_requests "''p1''"] a b c show ?thesis by simp
qed

lemma demote_run:
  "environments (perform_all demote_requests (demo_db [])) =
     [\<lparr>env_id = ''e1'', name = ''prod'', description = None, createdAt = 1, updatedAt = 3,
       isDefault = False, lastUpdatedById = Some ''u1'', projectId = ''p1''\<rparr>,
      \<lparr>env_id = ''e2'', name = ''staging'', description = None, createdAt = 2, updatedAt = 2,
       isDefault = False, lastUpdatedById = Some ''u1'', projectId = ''p1''\<rparr>]"
  by (simp add: demote_requests_def perform_all_def demo_defs resolver_defs store_defs
        service_defs)

text \<open>
  C1 as stated fails. Starting from the empty project, \<open>prod\<close> is created as the default,
  \<open>staging\<close> is created, and \<open>prod\<close> is updated with \<open>isDefault = false\<close>: the guard only
  refuses this for the last environment of a project, so the update succeeds. The project
  then has two environments and none of them is the default.
\<close>

theorem default_lost_by_update:
  "environment_count ''p1'' (perform_all demote_requests (demo_db [])) = 2
   \<and> defaults ''p1'' (perform_all demote_requests (demo_db [])) = []"
  by (simp add: environment_count_def defaults_def demote_run)

section \<open>The count is read before the transaction\<close>

lemma checks_guard:
  assumes "updateEnvironment_checks user dto environmentId d = Inr (environment, ops)"
  shows "\<not> (u_isDefault dto = Some False \<and> isDefault environment
            \<and> environment_count (projectId environment) d = 1)"
  using assms
  by (auto simp: updateEnvironment_checks_def Let_def split: sum.splits if_splits)

lemma count_map_same_project:
  "(\<And>x. projectId (f x) = projectId x) \<Longrightarrow>
     length (filter (\<lambda>e. projectId e = p) (map f xs))
       = length (filter (\<lambda>e. projectId e = p) xs)"
  by (induction xs) simp_all

lemma count_update:
  "environment_count p (snd (updateEnvironment g user dto environmentId d))
     = environment_count p d"
proof -
  let ?d' = "snd (updateEnvironment g user dto environmentId d)"
  from update_envs[of g user dto environmentId d] show ?thesis
  proof
    assume "environments ?d' = environments d"
    then show ?thesis by (simp add: environment_count_def)
  next
    assume "\<exists>old u. find (\<lambda>e. env_id e = environmentId) (environments d) = Some old
          \<and> (u_isDefault dto \<noteq> Some True \<longrightarrow> ud_isDefault u \<longrightarrow> isDefault old)
          \<and> environments ?d'
              = map (\<lambda>x. if env_id x = environmentId then apply_update (now g) u x else x)
                  (if u_isDefault dto = Some True
                   then map (\<lambda>e. if projectId e = projectId old
                                  then e\<lparr>isDefault := False, updatedAt := now g\<rparr> else e)
                            (environments d)
                   else environments d)"
    then obtain old :: Environment and u where
      envs: "environments ?d'
              = map (\<lambda>x. if env_id x = environmentId then apply_update (now g) u x else x)
                  (if u_isDefault dto = Some True
                   then map (\<lambda>e. if projectId e = projectId old
                                  then e\<lparr>isDefault := False, updatedAt := now g\<rparr> else e)
                            (environments d)
                   else environments d)"
      by blast
    let ?f = "\<lambda>x. if env_id x = environmentId then apply_update (now g) u x else x"
    let ?clr = "\<lambda>e. if projectId e = projectId old
                     then e\<lparr>isDefault := False, updatedAt := now g\<rparr> else e"
    let ?base = "if u_isDefault dto = Some True then map ?clr (environments d)
                 else environments d"
    have "environment_count p ?d' = length (filter (\<lambda>e. projectId e = p) (map ?f ?base))"
      by (simp only: environment_count_def envs)
    also have "\<dots> = length (filter (\<lambda>e. projectId e = p) ?base)"
      by (rule count_map_same_project) simp
    also have "\<dots> = length (filter (\<lambda>e. projectId e = p) (environments d))"
    proof (cases "u_isDefault dto = Some True")
      case True
      have "length (filter (\<lambda>e. projectId e = p) (map ?clr (environments d)))
              = length (filter (\<lambda>e. projectId e = p) (environments d))"
        by (rule count_map_same_project) simp
      with True show ?thesis by simp
    next
      case False
      then show ?thesis by simp
    qed
    finally show ?thesis by (simp only: environment_count_def)
  qed
qed

text \<open>
  C9, as the code has it. The count of the project's environments is read by a statement
  of its own during the checks; the transaction that follows holds the writes only. When
  nothing happens between the two (the call runs alone), the guard does its work: an
  update that succeeds in making a default environment non-default was checked against
  a project of at least two environments, and the project still has as many afterwards.
  When another request completes in between, the same writes are run on the store that
  request left, without a second look at the count.
\<close>

theorem count_read_before_transaction:
  assumes "updateEnvironment g user dto environmentId d = (Inr updated, d')"
    and "find (\<lambda>e. env_id e = environmentId) (environments d) = Some old"
    and "isDefault old" and "u_isDefault dto = Some False"
  shows "2 \<le> environment_count (projectId old) d
         \<and> environment_count (projectId old) d' = environment_count (projectId old) d
         \<and> (\<exists>u. updateEnvironment_checks user dto environmentId d
                   = Inr (old, [UpdateOp environmentId u])
                \<and> updateEnvironment_interleaved g user dto environmentId other d
                   = updateEnvironment_commit g user [UpdateOp environmentId u] (perform other d))"
proof -
  from assms(1) obtain environment ops where
    chk: "updateEnvironment_checks user dto environmentId d = Inr (environment, ops)"
    by (auto simp: updateEnvironment_def split: sum.splits)
  from checks_plan[OF chk] assms(4) obtain u where
    res: "getEnvironmentWithAuthority (user_id user) environmentId UPDATE_ENVIRONMENT d
            = Inr environment" and
    ops: "ops = [UpdateOp environmentId u]"
    by simp
  from resolver_returns_stored_row[OF res] assms(2) have old: "environment = old" by simp
  from checks_guard[OF chk] assms(3,4) old
  have ne: "environment_count (projectId old) d \<noteq> 1" by simp
  from assms(2) have "old \<in> set (filter (\<lambda>e. projectId e = projectId old) (environments d))"
    by (auto dest: find_Some_mem)
  then have "filter (\<lambda>e. projectId e = projectId old) (environments d) \<noteq> []"
    by (metis empty_iff empty_set)
  then have "environment_count (projectId old) d \<noteq> 0"
    by (simp add: environment_count_def)
  with ne have 1: "2 \<le> environment_count (projectId old) d" by arith
  from count_update[of "projectId old" g user dto environmentId d] assms(1)
  have 2: "environment_count (projectId old) d' = environment_count (projectId old) d"
    by simp
  from chk ops old have 3: "updateEnvironment_checks user dto environmentId d
      = Inr (old, [UpdateOp environmentId u])
    \<and> updateEnvironment_interleaved g user dto environmentId other d
      = updateEnvironment_commit g user [UpdateOp environmentId u] (perform other d)"
    by (simp add: updateEnvironment_interleaved_def)
  from 1 2 3 show ?thesis by blast
qed

text \<open>
  A run for C9 without interference: in the project with \<open>prod\<close> (default) and \<open>staging\<close>,
  \<open>prod\<close> is made non-default; the project had and has two environments.
\<close>

theorem count_read_before_transaction_witness:
  "fst (updateEnvironment (gen ''c3'' 3) alice
          \<lparr>u_name = None, u_description = None, u_isDefault = Some False\<rparr> ''e1''
          (demo_db [env_prod, env_staging]))
     = Inr (env_prod\<lparr>isDefault := False, updatedAt := 3\<rparr>)
   \<and> isDefault env_prod
   \<and> 2 \<le> environment_count (projectId env_prod) (demo_db [env_prod, env_staging])
   \<and> environment_count (projectId env_prod)
        (snd (updateEnvironment (gen ''c3'' 3) alice
                \<lparr>u_name = None, u_description = None, u_isDefault = Some False\<rparr> ''e1''
                (demo_db [env_prod, env_staging])))
       = environment_count (projectId env_prod) (demo_db [env_prod, env_staging])"
proof -
  let ?g = "gen ''c3'' 3"
  let ?dto = "\<lparr>u_name = None, u_description = None, u_isDefault = Some False\<rparr>"
  let ?d = "demo_db [env_prod, env_staging]"
  have r: "fst (updateEnvironment ?g alice ?dto ''e1'' ?d)
             = Inr (env_prod\<lparr>isDefault := False, updatedAt := 3\<rparr>)"
    by (simp add: demo_defs resolver_defs store_defs service_defs)
  then have a: "updateEnvironment ?g alice ?dto ''e1'' ?d
             = (Inr (env_prod\<lparr>isDefault := False, updatedAt := 3\<rparr>),
                snd (updateEnvironment ?g alice ?dto ''e1'' ?d))"
    by (simp add: prod_eq_iff)
  have b: "find (\<lambda>e. env_id e = ''e1'') (environments ?d) = Some env_prod"
    by (simp add: demo_defs)
  have c: "isDefault env_prod" by (simp add: env_prod_def)
  have e: "u_isDefault ?dto = Some False" by simp
  from count_read_before_transaction [OF a b c e] r c show ?thesis by blast
qed

text \<open>
  C9 as stated fails. In the project with \<open>prod\<close> (default) and \<open>staging\<close>, the checks of an
  update of \<open>prod\<close> with \<open>isDefault = false\<close> read the count 2 and pass. A delete of
  \<open>staging\<close> completes before the transaction: the count is now 1. The transaction still
  runs and succeeds, and the only environment left is not the default.
\<close>

theorem count_changes_between_check_and_write:
  "updateEnvironment_checks alice
      \<lparr>u_name = None, u_description = None, u_isDefault = Some False\<rparr> ''e1''
      (demo_db [env_prod, env_staging]) \<noteq> Inl InvalidOperation
   \<and> environment_count ''p1'' (demo_db [env_prod, env_staging]) = 2
   \<and> environment_count ''p1''
        (perform (DeleteReq (gen ''c2'' 2) alice ''e2'') (demo_db [env_prod, env_staging])) = 1
   \<and> fst (updateEnvironment_interleaved (gen ''c3'' 3) alice
          \<lparr>u_name = None, u_description = None, u_isDefault = Some False\<rparr> ''e1''
          (DeleteReq (gen ''c2'' 2) alice ''e2'') (demo_db [env_prod, env_staging]))
       = Inr (env_prod\<lparr>isDefault := False, updatedAt := 3\<rparr>)
   \<and> environments (snd (updateEnvironment_interleaved (gen ''c3'' 3) alice
          \<lparr>u_name = None, u_description = None, u_isDefault = Some False\<rparr> ''e1''
          (DeleteReq (gen ''c2'' 2) alice ''e2'') (demo_db [env_prod, env_staging])))
       = [env_prod\<lparr>isDefault := False, updatedAt := 3\<rparr>]"
  by (simp add: updateEnvironment_interleaved_def demo_defs resolver_defs store_defs service_defs
        forget_environment_def)

end
